theory Spec2Isabelle
  imports Main "HOL-Library.Sublist" "HOL-Library.Monad_Syntax"
begin

section \<open>The cycle engine of arr-missing-content (src/main.py)\<close>

text \<open>
  The program polls two services (Sonarr, Radarr) for wanted items, filters them against
  a ledger of already searched IDs kept in SQLite tables, and posts a search command for a
  bounded batch. Everything the Python does with the outside (environment variables, the
  database, HTTP, the clock, sleeping) is explicit here:
  \<^item> the process environment is a map from names to strings;
  \<^item> a table \<open>(id INTEGER PRIMARY KEY, timestamp TEXT)\<close> is a list of rows;
  \<^item> what the outside answers (a failing database call, an HTTP response, the wall
    clock, the order in which a Python set lists its elements) is read from a record of
    oracle functions, indexed by the number of interactions made so far;
  \<^item> every \<^verbatim>\<open>try ... except Exception\<close> of the source is a branch on the
    oracle's answer;
  \<^item> what the program does to the outside (HTTP requests, pauses, the log line of a
    wiped table) is appended to a trace.
  Log lines other than the wipe message are left out.
\<close>

subsection \<open>Configuration (lines 9 to 32)\<close>

text \<open>\<^verbatim>\<open>os.getenv(key, default)\<close> and \<^verbatim>\<open>os.getenv(key)\<close>.\<close>

definition getenv :: "(string \<rightharpoonup> string) \<Rightarrow> string \<Rightarrow> string \<Rightarrow> string" where
  "getenv environ key dflt = (case environ key of None \<Rightarrow> dflt | Some v \<Rightarrow> v)"

text \<open>
  \<^verbatim>\<open>int(s)\<close> on a string of ASCII characters: surrounding whitespace (space, tab,
  line feed, vertical tab, form feed, carriage return) is stripped, one sign is allowed,
  then decimal digits, with single underscores between digits, and at most 4300 digits
  (the limit of CPython 3.11 on the conversion). Anything else raises ValueError
  (\<open>None\<close>). The spaces and digits beyond ASCII that \<^verbatim>\<open>int\<close> also reads are
  not modelled.
\<close>

definition is_space :: "char \<Rightarrow> bool" where
  "is_space c = (c \<in> set [CHR '' '', CHR 0x09, CHR 0x0A, CHR 0x0B, CHR 0x0C, CHR 0x0D])"

definition digit_of :: "char \<Rightarrow> nat option" where
  "digit_of = map_of
     [(CHR ''0'', 0), (CHR ''1'', 1), (CHR ''2'', 2), (CHR ''3'', 3), (CHR ''4'', 4),
      (CHR ''5'', 5), (CHR ''6'', 6), (CHR ''7'', 7), (CHR ''8'', 8), (CHR ''9'', 9)]"

fun digits_from :: "nat \<Rightarrow> string \<Rightarrow> nat option" where
  "digits_from acc [] = Some acc"
| "digits_from acc [c] =
     (case digit_of c of None \<Rightarrow> None | Some d \<Rightarrow> Some (10 * acc + d))"
| "digits_from acc (c # c' # cs) =
     (if c = CHR ''_''
      then (case digit_of c' of None \<Rightarrow> None | Some d \<Rightarrow> digits_from (10 * acc + d) cs)
      else (case digit_of c of None \<Rightarrow> None
            | Some d \<Rightarrow> digits_from (10 * acc + d) (c' # cs)))"

definition unsigned_int :: "string \<Rightarrow> nat option" where
  "unsigned_int s =
     (if length [c \<leftarrow> s. c \<noteq> CHR ''_''] > 4300 then None
      else (case s of [] \<Rightarrow> None
            | c # cs \<Rightarrow> (case digit_of c of None \<Rightarrow> None | Some d \<Rightarrow> digits_from d cs)))"

definition strip :: "string \<Rightarrow> string" where
  "strip s = rev (dropWhile is_space (rev (dropWhile is_space s)))"

definition py_int :: "string \<Rightarrow> int option" where
  "py_int s =
     (case strip s of
        [] \<Rightarrow> None
      | c # cs \<Rightarrow>
          if c = CHR ''-'' then map_option (\<lambda>n. - int n) (unsigned_int cs)
          else if c = CHR ''+'' then map_option int (unsigned_int cs)
          else map_option int (unsigned_int (c # cs)))"

text \<open>Truth value of \<^verbatim>\<open>os.getenv(key)\<close>: set and not the empty string.\<close>

definition truthy :: "string option \<Rightarrow> bool" where
  "truthy v = (case v of None \<Rightarrow> False | Some s \<Rightarrow> s \<noteq> [])"

text \<open>The module's global settings. \<open>LOG_LEVEL\<close> and \<open>DB_PATH\<close> play no part below.\<close>

record config =
  REQUEST_DELAY_SECONDS :: int
  MAX_CYCLE_DAYS :: int
  RUN_EVERY_MINUTES :: int
  SONARR_URL :: "string option"
  SONARR_API_KEY :: "string option"
  SONARR_LIMIT :: int
  SONARR_CUTOFF_LIMIT :: int
  SONARR_ENABLED :: bool
  RADARR_URL :: "string option"
  RADARR_API_KEY :: "string option"
  RADARR_LIMIT :: int
  RADARR_CUTOFF_LIMIT :: int
  RADARR_ENABLED :: bool

text \<open>
  Lines 15 to 32, in the order of the source. A setting that \<^verbatim>\<open>int\<close> rejects
  raises at import, and there is no configuration (\<open>None\<close>).
\<close>

definition load_config :: "(string \<rightharpoonup> string) \<Rightarrow> config option" where
  "load_config environ = do {
     request_delay_seconds \<leftarrow> py_int (getenv environ ''REQUEST_DELAY_SECONDS'' ''2'');
     max_cycle_days \<leftarrow> py_int (getenv environ ''MAX_CYCLE_DAYS'' ''30'');
     run_every_minutes \<leftarrow> py_int (getenv environ ''RUN_EVERY'' ''15'');
     sonarr_limit \<leftarrow> py_int (getenv environ ''SONARR_LIMIT'' ''10'');
     sonarr_cutoff_limit \<leftarrow> py_int (getenv environ ''SONARR_CUTOFF_LIMIT'' ''0'');
     radarr_limit \<leftarrow> py_int (getenv environ ''RADARR_LIMIT'' ''10'');
     radarr_cutoff_limit \<leftarrow> py_int (getenv environ ''RADARR_CUTOFF_LIMIT'' ''0'');
     Some \<lparr> REQUEST_DELAY_SECONDS = request_delay_seconds,
            MAX_CYCLE_DAYS = max_cycle_days,
            RUN_EVERY_MINUTES = run_every_minutes,
            SONARR_URL = environ ''SONARR_URL'',
            SONARR_API_KEY = environ ''SONARR_API_KEY'',
            SONARR_LIMIT = sonarr_limit,
            SONARR_CUTOFF_LIMIT = sonarr_cutoff_limit,
            SONARR_ENABLED = (truthy (environ ''SONARR_URL'') \<and> truthy (environ ''SONARR_API_KEY'')),
            RADARR_URL = environ ''RADARR_URL'',
            RADARR_API_KEY = environ ''RADARR_API_KEY'',
            RADARR_LIMIT = radarr_limit,
            RADARR_CUTOFF_LIMIT = radarr_cutoff_limit,
            RADARR_ENABLED = (truthy (environ ''RADARR_URL'') \<and> truthy (environ ''RADARR_API_KEY'')) \<rparr>
   }"

subsection \<open>The outside world\<close>

text \<open>
  Times are integers of microseconds: \<^verbatim>\<open>datetime.now()\<close> is a reading of the
  clock, and a timestamp column holds such a reading (its ISO text sorts as the reading
  does). The range of \<^verbatim>\<open>datetime\<close> (years 1 to 9999) is not modelled.
\<close>

type_synonym time = int

text \<open>
  \<^verbatim>\<open>timedelta(days=d)\<close>: a day has 86400000000 microseconds, and a magnitude
  above 999999999 days raises OverflowError (\<open>None\<close>).
\<close>

definition timedelta_days :: "int \<Rightarrow> time option" where
  "timedelta_days d = (if \<bar>d\<bar> \<le> 999999999 then Some (d * 86400000000) else None)"

text \<open>A table: its rows \<open>(id, timestamp)\<close>, in the order of insertion.\<close>

type_synonym ledger = "(int \<times> time) list"

text \<open>
  What the code looks at in a decoded JSON body. An element of a listing is an object,
  of which the code reads \<^verbatim>\<open>item['id']\<close> (KeyError when absent) and the truth
  values of \<^verbatim>\<open>m.get('hasFile')\<close> and \<^verbatim>\<open>m.get('monitored')\<close>, or it is not an
  object, and then both reads raise. IDs are integers, as in the services' API.
\<close>

datatype item = Non_Object | Object (id_field: "int option") (has_file: bool) (is_monitored: bool)

text \<open>
  A body is a JSON array, or an object whose \<open>records\<close> entry is an array, or an
  empty object or string (iterating it yields nothing, and it has no \<open>records\<close>), or
  any other value: a number, a boolean, null, a string that is not empty, an object
  without an array under \<open>records\<close>.
\<close>

datatype body = Array "item list" | Records "item list" | Empty_Container | Other

text \<open>
  \<open>Failed\<close>: the request raised, \<^verbatim>\<open>raise_for_status\<close> raised, or the body was
  not JSON.
\<close>

datatype response = Failed | Json body

text \<open>The JSON payload of a search command, and what the program does that shows.\<close>

datatype command = EpisodeSearch "int list" | MoviesSearch "int list" | Empty_Payload

datatype event = Get string | Post string command | Sleep int | Wiped string

text \<open>
  The answers of the outside, by the number \<open>n\<close> of the interaction: whether the
  database call raises, the reading of the clock, the response to a GET of a URL with an
  API key, whether a POST of a command goes through (no exception, no error status), and
  the slot of an element in \<^verbatim>\<open>set(xs)\<close>.
\<close>

record outside =
  db_fails :: "nat \<Rightarrow> bool"
  clock :: "nat \<Rightarrow> time"
  http_get :: "nat \<Rightarrow> string \<Rightarrow> string option \<Rightarrow> response"
  http_post :: "nat \<Rightarrow> string \<Rightarrow> string option \<Rightarrow> command \<Rightarrow> bool"
  slot :: "int list \<Rightarrow> int \<Rightarrow> nat"

text \<open>
  The state: the tables of the database by name, what was issued so far, and the number
  of interactions so far.
\<close>

record world =
  tables :: "string \<Rightarrow> ledger"
  trace :: "event list"
  tick :: nat

definition advance :: "world \<Rightarrow> world" where
  "advance w = w\<lparr>tick := Suc (tick w)\<rparr>"

definition emit :: "event \<Rightarrow> world \<Rightarrow> world" where
  "emit ev w = w\<lparr>trace := trace w @ [ev]\<rparr>"

text \<open>An f-string prints \<^verbatim>\<open>None\<close> for an unset URL.\<close>

definition fmt :: "string option \<Rightarrow> string" where
  "fmt url = (case url of None \<Rightarrow> ''None'' | Some u \<Rightarrow> u)"

text \<open>
  \<^verbatim>\<open>list(set(xs))\<close>: the elements of \<open>xs\<close>, each once, in the order of their slots
  in the set's hash table. The slots are the interpreter's business and may depend on
  the insertions, so the oracle supplies them.
\<close>

definition py_list_set :: "outside \<Rightarrow> int list \<Rightarrow> int list" where
  "py_list_set out xs = sort_key (slot out xs) (remdups xs)"

text \<open>\<^verbatim>\<open>xs[:k]\<close>: a negative \<open>k\<close> counts from the end.\<close>

definition py_slice_to :: "int \<Rightarrow> 'a list \<Rightarrow> 'a list" where
  "py_slice_to k xs =
     (if 0 \<le> k then take (nat k) xs else take (length xs - nat (- k)) xs)"

subsection \<open>Database management (lines 43 to 116)\<close>

text \<open>
  Each function opens its own connection inside \<^verbatim>\<open>try\<close>; when the database
  fails the error is logged and the function returns its neutral value. The tables are
  those that \<^verbatim>\<open>init_db\<close> creates; a table that is not there is a failing call.
\<close>

definition get_searched_ids :: "outside \<Rightarrow> string \<Rightarrow> world \<Rightarrow> int set \<times> world" where
  "get_searched_ids out table_name w =
     (if db_fails out (tick w) then ({}, advance w)
      else (fst ` set (tables w table_name), advance w))"

text \<open>\<^verbatim>\<open>INSERT OR IGNORE\<close> on a table whose primary key is the ID.\<close>

definition insert_or_ignore :: "int \<Rightarrow> time \<Rightarrow> ledger \<Rightarrow> ledger" where
  "insert_or_ignore item_id timestamp rows =
     (if item_id \<in> fst ` set rows then rows else rows @ [(item_id, timestamp)])"

definition add_searched_id :: "outside \<Rightarrow> string \<Rightarrow> int \<Rightarrow> world \<Rightarrow> world" where
  "add_searched_id out table_name item_id w =
     (if db_fails out (tick w) then advance w
      else (let timestamp = clock out (tick w) in
            (advance w)\<lparr>tables := (tables w)
               (table_name := insert_or_ignore item_id timestamp (tables w table_name))\<rparr>))"

definition wipe_table :: "outside \<Rightarrow> string \<Rightarrow> world \<Rightarrow> world" where
  "wipe_table out table_name w =
     (if db_fails out (tick w) then advance w
      else emit (Wiped table_name) ((advance w)\<lparr>tables := (tables w)(table_name := [])\<rparr>))"

text \<open>\<^verbatim>\<open>SELECT timestamp ... ORDER BY timestamp ASC LIMIT 1\<close>: no row on an empty table.\<close>

definition oldest_timestamp :: "ledger \<Rightarrow> time option" where
  "oldest_timestamp rows =
     (case rows of [] \<Rightarrow> None | r # rs \<Rightarrow> Some (fold min (map snd rs) (snd r)))"

text \<open>
  The whole body stands in one \<^verbatim>\<open>try\<close>: a failing read and the OverflowError of
  \<^verbatim>\<open>timedelta\<close> are logged, and nothing is wiped.
\<close>

definition check_safety_net :: "outside \<Rightarrow> config \<Rightarrow> string \<Rightarrow> world \<Rightarrow> world" where
  "check_safety_net out cfg table_name w =
     (if db_fails out (tick w) then advance w
      else (case oldest_timestamp (tables w table_name) of
              None \<Rightarrow> advance w
            | Some oldest_date \<Rightarrow>
                (case timedelta_days (MAX_CYCLE_DAYS cfg) of
                   None \<Rightarrow> advance w
                 | Some max_age \<Rightarrow>
                     if clock out (tick w) - oldest_date > max_age
                     then wipe_table out table_name (advance w)
                     else advance w)))"

subsection \<open>API interaction (lines 120 to 214)\<close>

text \<open>\<^verbatim>\<open>[item['id'] for item in items]\<close>: \<open>None\<close> when a read raises.\<close>

fun subscript_ids :: "item list \<Rightarrow> int list option" where
  "subscript_ids [] = Some []"
| "subscript_ids (Non_Object # items) = None"
| "subscript_ids (Object None f m # items) = None"
| "subscript_ids (Object (Some i) f m # items) = map_option ((#) i) (subscript_ids items)"

definition fetch_ids_from_endpoint ::
  "outside \<Rightarrow> string option \<Rightarrow> string option \<Rightarrow> string \<Rightarrow> world \<Rightarrow> int list \<times> world" where
  "fetch_ids_from_endpoint out url api_key endpoint_suffix w =
     (let endpoint = fmt url @ endpoint_suffix;
          w' = emit (Get endpoint) (advance w)
      in case http_get out (tick w) endpoint api_key of
           Failed \<Rightarrow> ([], w')
         | Json data \<Rightarrow>
             (case data of
                Records items \<Rightarrow>
                  (case subscript_ids items of None \<Rightarrow> ([], w') | Some ids \<Rightarrow> (ids, w'))
              | Array items \<Rightarrow>
                  (case subscript_ids items of None \<Rightarrow> ([], w') | Some ids \<Rightarrow> (ids, w'))
              | Empty_Container \<Rightarrow> ([], w')
              | Other \<Rightarrow> ([], w')))"

text \<open>
  \<^verbatim>\<open>[m['id'] for m in movies if not m.get('hasFile') and m.get('monitored')]\<close>:
  the ID is read only of a movie that passes the test.
\<close>

fun missing_movie_ids :: "item list \<Rightarrow> int list option" where
  "missing_movie_ids [] = Some []"
| "missing_movie_ids (Non_Object # movies) = None"
| "missing_movie_ids (Object i f m # movies) =
     (if \<not> f \<and> m
      then (case i of None \<Rightarrow> None
            | Some v \<Rightarrow> map_option ((#) v) (missing_movie_ids movies))
      else missing_movie_ids movies)"

text \<open>Iterating the decoded body of \<open>/api/v3/movie\<close>.\<close>

definition movies_missing :: "body \<Rightarrow> int list option" where
  "movies_missing data =
     (case data of
        Array movies \<Rightarrow> missing_movie_ids movies
      | Records items \<Rightarrow> None
      | Empty_Container \<Rightarrow> Some []
      | Other \<Rightarrow> None)"

definition get_combined_content ::
  "outside \<Rightarrow> string \<Rightarrow> string option \<Rightarrow> string option \<Rightarrow> int \<Rightarrow> int \<Rightarrow> world
     \<Rightarrow> int list \<times> world" where
  "get_combined_content out app_name url api_key limit cutoff_limit w =
     (if app_name = ''sonarr'' then
        (let (missing_ids, w1) = fetch_ids_from_endpoint out url api_key
               ''/api/v3/wanted/missing?page=1&pageSize=1000&sortKey=airDateUtc&sortDir=desc'' w
         in if cutoff_limit > 0 then
              (let (cutoff_ids, w2) = fetch_ids_from_endpoint out url api_key
                     ''/api/v3/wanted/cutoff?page=1&pageSize=1000&sortKey=airDateUtc&sortDir=desc'' w1
               in (py_list_set out (missing_ids @ cutoff_ids), w2))
            else (py_list_set out missing_ids, w1))
      else if app_name = ''radarr'' then
        (let endpoint = fmt url @ ''/api/v3/movie'';
             w1 = emit (Get endpoint) (advance w)
         in case http_get out (tick w) endpoint api_key of
              Failed \<Rightarrow> (py_list_set out [], w1)
            | Json movies \<Rightarrow>
                (case movies_missing movies of
                   None \<Rightarrow> (py_list_set out [], w1)
                 | Some missing_ids \<Rightarrow>
                     if cutoff_limit > 0 then
                       (let (cutoff_ids, w2) = fetch_ids_from_endpoint out url api_key
                              ''/api/v3/wanted/cutoff?page=1&pageSize=1000&sortKey=title&sortDir=asc'' w1
                        in (py_list_set out (missing_ids @ cutoff_ids), w2))
                     else (py_list_set out missing_ids, w1)))
      else (py_list_set out [], w))"

text \<open>
  One turn of the loop of \<^verbatim>\<open>trigger_search\<close>. A failed request leaves the
  \<^verbatim>\<open>try\<close> block at once: nothing after it runs.
\<close>

definition search_one ::
  "outside \<Rightarrow> config \<Rightarrow> string \<Rightarrow> string option \<Rightarrow> string option \<Rightarrow> int \<Rightarrow> world \<Rightarrow> world" where
  "search_one out cfg app_name url api_key item_id w =
     (let payload = (if app_name = ''sonarr'' then EpisodeSearch [item_id]
                     else if app_name = ''radarr'' then MoviesSearch [item_id]
                     else Empty_Payload);
          target = fmt url @ ''/api/v3/command'';
          w1 = emit (Post target payload) (advance w)
      in if http_post out (tick w) target api_key payload then
           (let w2 = add_searched_id out (app_name @ ''_searches'') item_id w1
            in if REQUEST_DELAY_SECONDS cfg > 0
               then emit (Sleep (REQUEST_DELAY_SECONDS cfg)) w2
               else w2)
         else w1)"

fun trigger_search ::
  "outside \<Rightarrow> config \<Rightarrow> string \<Rightarrow> string option \<Rightarrow> string option \<Rightarrow> int list \<Rightarrow> world \<Rightarrow> world" where
  "trigger_search out cfg app_name url api_key [] w = w"
| "trigger_search out cfg app_name url api_key (item_id # item_ids) w =
     trigger_search out cfg app_name url api_key item_ids
       (search_one out cfg app_name url api_key item_id w)"

subsection \<open>Core logic (lines 218 to 259)\<close>

definition filter_step :: "int list \<Rightarrow> int set \<Rightarrow> int list" where
  "filter_step all_candidates searched_ids = [i \<leftarrow> all_candidates. i \<notin> searched_ids]"

text \<open>Steps 2 to 5 of \<^verbatim>\<open>run_cycle\<close>, after the settings are picked and the safety net has run.\<close>

definition fetch_filter_dispatch ::
  "outside \<Rightarrow> config \<Rightarrow> string \<Rightarrow> world \<Rightarrow> world" where
  "fetch_filter_dispatch out cfg app_name w1 =
     (let url = (if app_name = ''sonarr'' then SONARR_URL cfg else RADARR_URL cfg);
          api_key = (if app_name = ''sonarr'' then SONARR_API_KEY cfg else RADARR_API_KEY cfg);
          limit = (if app_name = ''sonarr'' then SONARR_LIMIT cfg else RADARR_LIMIT cfg);
          cutoff_limit = (if app_name = ''sonarr'' then SONARR_CUTOFF_LIMIT cfg
                          else RADARR_CUTOFF_LIMIT cfg);
          table_name = app_name @ ''_searches'';
          (all_candidates, w2) =
             get_combined_content out app_name url api_key limit cutoff_limit w1
      in if all_candidates = [] then w2
         else (let (searched_ids, w3) = get_searched_ids out table_name w2;
                   target_list = filter_step all_candidates searched_ids
               in if target_list = []
                  then (if searched_ids \<noteq> {} then wipe_table out table_name w3 else w3)
                  else (let batch_to_search = py_slice_to limit target_list
                        in trigger_search out cfg app_name url api_key batch_to_search w3)))"

definition run_cycle :: "outside \<Rightarrow> config \<Rightarrow> string \<Rightarrow> world \<Rightarrow> world" where
  "run_cycle out cfg app_name w =
     (if app_name = ''sonarr'' \<and> \<not> SONARR_ENABLED cfg then w
      else if app_name = ''radarr'' \<and> \<not> RADARR_ENABLED cfg then w
      else fetch_filter_dispatch out cfg app_name
             (check_safety_net out cfg (app_name @ ''_searches'') w))"

subsection \<open>Observing a cycle\<close>

text \<open>
  A search trigger is a \<open>Post\<close> event; the IDs dispatched are those of the posted
  commands; what a run issued is what it appended to the trace.
\<close>

fun is_post :: "event \<Rightarrow> bool" where
  "is_post (Post target payload) = True"
| "is_post (Get endpoint) = False"
| "is_post (Sleep seconds) = False"
| "is_post (Wiped table_name) = False"

definition triggers :: "event list \<Rightarrow> nat" where
  "triggers evs = length (filter is_post evs)"

fun command_ids :: "command \<Rightarrow> int list" where
  "command_ids (EpisodeSearch ids) = ids"
| "command_ids (MoviesSearch ids) = ids"
| "command_ids Empty_Payload = []"

fun dispatched :: "event list \<Rightarrow> int list" where
  "dispatched [] = []"
| "dispatched (Post target payload # evs) = command_ids payload @ dispatched evs"
| "dispatched (Get endpoint # evs) = dispatched evs"
| "dispatched (Sleep seconds # evs) = dispatched evs"
| "dispatched (Wiped table_name # evs) = dispatched evs"

definition issued :: "world \<Rightarrow> world \<Rightarrow> event list" where
  "issued w w' = drop (length (trace w)) (trace w')"

text \<open>A step that issues no search trigger.\<close>

definition quiet_step :: "world \<Rightarrow> world \<Rightarrow> bool" where
  "quiet_step w w' = (\<exists>evs. trace w' = trace w @ evs \<and> triggers evs = 0)"

text \<open>The settings that \<^verbatim>\<open>run_cycle\<close> picks for a category (lines 219 to 226).\<close>

definition url_of :: "config \<Rightarrow> string \<Rightarrow> string option" where
  "url_of cfg app_name = (if app_name = ''sonarr'' then SONARR_URL cfg else RADARR_URL cfg)"

definition api_key_of :: "config \<Rightarrow> string \<Rightarrow> string option" where
  "api_key_of cfg app_name =
     (if app_name = ''sonarr'' then SONARR_API_KEY cfg else RADARR_API_KEY cfg)"

definition enabled :: "config \<Rightarrow> string \<Rightarrow> bool" where
  "enabled cfg app_name =
     (\<not> (app_name = ''sonarr'' \<and> \<not> SONARR_ENABLED cfg) \<and>
      \<not> (app_name = ''radarr'' \<and> \<not> RADARR_ENABLED cfg))"

definition limit_of :: "config \<Rightarrow> string \<Rightarrow> int" where
  "limit_of cfg app_name = (if app_name = ''sonarr'' then SONARR_LIMIT cfg else RADARR_LIMIT cfg)"

text \<open>
  The candidates of a cycle with the world after the fetch, and the searched IDs that
  the filter step loads with the world after the read.
\<close>

definition fetched :: "outside \<Rightarrow> config \<Rightarrow> string \<Rightarrow> world \<Rightarrow> int list \<times> world" where
  "fetched out cfg app_name w =
     get_combined_content out app_name
       (if app_name = ''sonarr'' then SONARR_URL cfg else RADARR_URL cfg)
       (if app_name = ''sonarr'' then SONARR_API_KEY cfg else RADARR_API_KEY cfg)
       (if app_name = ''sonarr'' then SONARR_LIMIT cfg else RADARR_LIMIT cfg)
       (if app_name = ''sonarr'' then SONARR_CUTOFF_LIMIT cfg else RADARR_CUTOFF_LIMIT cfg)
       (check_safety_net out cfg (app_name @ ''_searches'') w)"

definition loaded :: "outside \<Rightarrow> config \<Rightarrow> string \<Rightarrow> world \<Rightarrow> int set \<times> world" where
  "loaded out cfg app_name w =
     get_searched_ids out (app_name @ ''_searches'') (snd (fetched out cfg app_name w))"

text \<open>
  The filter step in the words of the specification: the IDs of the two sub-queries,
  each at its first occurrence, without the searched ones.
\<close>

definition first_discovery :: "int list \<Rightarrow> int list" where
  "first_discovery xs = rev (remdups (rev xs))"

definition spec_target :: "int list \<Rightarrow> int list \<Rightarrow> int set \<Rightarrow> int list" where
  "spec_target missing_ids cutoff_ids searched_ids =
     [i \<leftarrow> first_discovery (missing_ids @ cutoff_ids). i \<notin> searched_ids]"

subsection \<open>Fixtures\<close>

text \<open>
  A service at \<open>http://s\<close> that lists the given IDs as missing episodes and answers
  every other request with \<open>other\<close>; a database that never fails; a clock standing at
  0; every search command accepted. The slots are those of CPython for a set of a few
  small non-negative integers: a table of eight, each integer in the slot of its value
  modulo eight.
\<close>

definition wanted :: "int list \<Rightarrow> body" where
  "wanted ids = Records (map (\<lambda>i. Object (Some i) False True) ids)"

definition missing_suffix :: string where
  "missing_suffix = ''/api/v3/wanted/missing?page=1&pageSize=1000&sortKey=airDateUtc&sortDir=desc''"

definition serving :: "int list \<Rightarrow> response \<Rightarrow> outside" where
  "serving missing_ids other =
     \<lparr> db_fails = (\<lambda>n. False),
       clock = (\<lambda>n. 0),
       http_get = (\<lambda>n endpoint key.
          if endpoint = ''http://s'' @ missing_suffix then Json (wanted missing_ids) else other),
       http_post = (\<lambda>n target key payload. True),
       slot = (\<lambda>xs i. nat (i mod 8)) \<rparr>"

definition settings :: config where
  "settings =
     \<lparr> REQUEST_DELAY_SECONDS = 2, MAX_CYCLE_DAYS = 30, RUN_EVERY_MINUTES = 15,
       SONARR_URL = Some ''http://s'', SONARR_API_KEY = Some ''k'',
       SONARR_LIMIT = 2, SONARR_CUTOFF_LIMIT = 0, SONARR_ENABLED = True,
       RADARR_URL = Some ''http://r'', RADARR_API_KEY = Some ''k'',
       RADARR_LIMIT = 2, RADARR_CUTOFF_LIMIT = 1, RADARR_ENABLED = True \<rparr>"

text \<open>A world at its first interaction, nothing issued yet, each table holding the given rows.\<close>

definition fresh :: "ledger \<Rightarrow> world" where
  "fresh rows = \<lparr> tables = (\<lambda>t. rows), trace = [], tick = 0 \<rparr>"

text \<open>
  A clock that moves, a clock that stands at a given reading, a database whose second
  call fails, and a service that rejects the search of ID 1.
\<close>

definition ticking :: outside where
  "ticking = (serving [] Failed)\<lparr>clock := (\<lambda>n. 100 + int n)\<rparr>"

definition reading :: "time \<Rightarrow> outside" where
  "reading t = (serving [] Failed)\<lparr>clock := (\<lambda>n. t)\<rparr>"

definition locked :: "time \<Rightarrow> outside" where
  "locked t = (reading t)\<lparr>db_fails := (\<lambda>n. n = 1)\<rparr>"

definition flaky :: outside where
  "flaky = (serving [] Failed)
     \<lparr>http_post := (\<lambda>n target key payload. payload \<noteq> EpisodeSearch [1])\<rparr>"

text \<open>Radarr with a movie listing that cannot be fetched and a cutoff listing of ID 7.\<close>

definition cutoff_suffix :: string where
  "cutoff_suffix = ''/api/v3/wanted/cutoff?page=1&pageSize=1000&sortKey=title&sortDir=asc''"

definition radarr_down :: outside where
  "radarr_down = (serving [] Failed)
     \<lparr>http_get := (\<lambda>n endpoint key.
        if endpoint = ''http://r/api/v3/movie'' then Failed else Json (wanted [7]))\<rparr>"

section \<open>Basic facts\<close>

lemma advance_simps [simp]:
  "tables (advance w) = tables w" "trace (advance w) = trace w" "tick (advance w) = Suc (tick w)"
  by (simp_all add: advance_def)

lemma emit_simps [simp]:
  "tables (emit ev w) = tables w" "trace (emit ev w) = trace w @ [ev]" "tick (emit ev w) = tick w"
  by (simp_all add: emit_def)

lemma triggers_simps [simp]:
  "triggers [] = 0"
  "triggers (evs @ evs') = triggers evs + triggers evs'"
  "triggers (Post target payload # evs) = Suc (triggers evs)"
  "triggers (Get endpoint # evs) = triggers evs"
  "triggers (Sleep seconds # evs) = triggers evs"
  "triggers (Wiped table_name # evs) = triggers evs"
  by (simp_all add: triggers_def)

lemma dispatched_append [simp]: "dispatched (evs @ evs') = dispatched evs @ dispatched evs'"
  by (induction evs rule: dispatched.induct) simp_all

lemma issued_append [simp]: "trace w' = trace w @ evs \<Longrightarrow> issued w w' = evs"
  by (simp add: issued_def)

lemma issued_same [simp]: "issued w w = []"
  by (simp add: issued_def)

subsection \<open>The Python's list of a set\<close>

lemma set_py_list_set [simp]: "set (py_list_set out xs) = set xs"
  by (simp add: py_list_set_def)

lemma distinct_py_list_set [simp]: "distinct (py_list_set out xs)"
  by (simp add: py_list_set_def)

lemma py_list_set_Nil [simp]: "py_list_set out [] = []"
  by (simp add: py_list_set_def)

lemma py_list_set_empty_iff [simp]: "py_list_set out xs = [] \<longleftrightarrow> xs = []"
proof
  assume "py_list_set out xs = []"
  then have "set (py_list_set out xs) = {}" by simp
  then show "xs = []" by simp
qed simp

lemma sorted_py_list_set: "sorted (map (slot out xs) (py_list_set out xs))"
  by (simp add: py_list_set_def)

subsection \<open>Slices\<close>

lemma length_py_slice_to: "0 \<le> k \<Longrightarrow> int (length (py_slice_to k xs)) \<le> k"
  by (simp add: py_slice_to_def)

lemma set_py_slice_to: "set (py_slice_to k xs) \<subseteq> set xs"
  by (auto simp: py_slice_to_def dest: in_set_takeD)

subsection \<open>Integers from strings\<close>

lemma py_int_defaults [simp]:
  "py_int ''2'' = Some 2" "py_int ''30'' = Some 30" "py_int ''15'' = Some 15"
  "py_int ''10'' = Some 10" "py_int ''0'' = Some 0" "py_int ''5'' = Some 5"
  by (simp_all add: py_int_def strip_def is_space_def unsigned_int_def digit_of_def)

lemma py_int_negative: "py_int ''-1'' = Some (- 1)"
  by (simp add: py_int_def strip_def is_space_def unsigned_int_def digit_of_def)

lemma load_config_Some:
  assumes "load_config environ = Some cfg"
  shows "py_int (getenv environ ''RUN_EVERY'' ''15'') = Some (RUN_EVERY_MINUTES cfg)"
    and "py_int (getenv environ ''SONARR_LIMIT'' ''10'') = Some (SONARR_LIMIT cfg)"
    and "py_int (getenv environ ''SONARR_CUTOFF_LIMIT'' ''0'') = Some (SONARR_CUTOFF_LIMIT cfg)"
  using assms by (auto simp: load_config_def split: Option.bind_splits)

subsection \<open>The ledger\<close>

lemma fold_min_le: "fold min xs (a::int) \<le> a"
proof (induction xs arbitrary: a)
  case Nil
  then show ?case by simp
next
  case (Cons y ys)
  have "fold min ys (min y a) \<le> min y a" by (rule Cons.IH)
  then show ?case by simp
qed

lemma fold_min_lower: "x \<in> set xs \<Longrightarrow> fold min xs (a::int) \<le> x"
proof (induction xs arbitrary: a)
  case Nil
  then show ?case by simp
next
  case (Cons y ys)
  show ?case
  proof (cases "x = y")
    case True
    have "fold min ys (min y a) \<le> min y a" by (rule fold_min_le)
    with True show ?thesis by simp
  next
    case False
    with Cons show ?thesis by simp
  qed
qed

lemma fold_min_mem: "fold min xs (a::int) \<in> insert a (set xs)"
  by (induction xs arbitrary: a) (auto simp: min_def)

lemma oldest_timestamp_None [simp]: "oldest_timestamp rows = None \<longleftrightarrow> rows = []"
  by (simp add: oldest_timestamp_def split: list.splits)

lemma oldest_timestamp_is_least:
  assumes "oldest_timestamp rows = Some t"
  shows "t \<in> snd ` set rows" and "\<forall>r \<in> set rows. t \<le> snd r"
proof -
  from assms obtain r rs where rows: "rows = r # rs" and t: "t = fold min (map snd rs) (snd r)"
    by (auto simp: oldest_timestamp_def split: list.splits)
  from fold_min_mem [of "map snd rs" "snd r"] show "t \<in> snd ` set rows"
    by (auto simp: rows t)
  show "\<forall>r \<in> set rows. t \<le> snd r"
    using fold_min_le [of "map snd rs" "snd r"] fold_min_lower [of _ "map snd rs" "snd r"]
    by (auto simp: rows t)
qed

lemma oldest_timestamp_eq:
  assumes "(i, t) \<in> set rows" and "\<forall>r \<in> set rows. t \<le> snd r"
  shows "oldest_timestamp rows = Some t"
proof -
  from assms(1) have "rows \<noteq> []" by auto
  then obtain t' where t': "oldest_timestamp rows = Some t'"
    by (cases "oldest_timestamp rows") simp_all
  from oldest_timestamp_is_least [OF t'] obtain r where "r \<in> set rows" "t' = snd r"
    and least: "\<forall>r \<in> set rows. t' \<le> snd r"
    by auto
  with assms have "t \<le> t'" "t' \<le> t" by force+
  with t' show ?thesis by simp
qed

lemma filter_key_absent: "x \<notin> fst ` set rows \<Longrightarrow> [r \<leftarrow> rows. fst r = x] = []"
  by (induction rows) auto

lemma insert_or_ignore_present [simp]:
  "x \<in> fst ` set rows \<Longrightarrow> insert_or_ignore x t rows = rows"
  by (simp add: insert_or_ignore_def)

lemma insert_or_ignore_keys [simp]:
  "fst ` set (insert_or_ignore x t rows) = insert x (fst ` set rows)"
  by (auto simp: insert_or_ignore_def)

lemma insert_or_ignore_twice:
  "insert_or_ignore x t' (insert_or_ignore x t rows) = insert_or_ignore x t rows"
  by simp

lemma insert_or_ignore_distinct:
  "distinct (map fst rows) \<Longrightarrow> distinct (map fst (insert_or_ignore x t rows))"
  by (auto simp: insert_or_ignore_def)

lemma insert_or_ignore_entry:
  "x \<notin> fst ` set rows \<Longrightarrow> [r \<leftarrow> insert_or_ignore x t rows. fst r = x] = [(x, t)]"
  by (simp add: insert_or_ignore_def filter_key_absent)

lemma distinct_key_once:
  "distinct (map fst rows) \<Longrightarrow> x \<in> fst ` set rows \<Longrightarrow> length [r \<leftarrow> rows. fst r = x] = 1"
proof (induction rows)
  case Nil
  then show ?case by simp
next
  case (Cons r rows)
  show ?case
  proof (cases "fst r = x")
    case True
    with Cons.prems have "x \<notin> fst ` set rows" by auto
    with True show ?thesis by (simp add: filter_key_absent)
  next
    case False
    with Cons show ?thesis by auto
  qed
qed

lemma add_searched_id_tables:
  "tables (add_searched_id out t x w) =
     (if db_fails out (tick w) then tables w
      else (tables w)(t := insert_or_ignore x (clock out (tick w)) (tables w t)))"
  by (simp add: add_searched_id_def Let_def)

lemma add_searched_id_trace [simp]: "trace (add_searched_id out t x w) = trace w"
  by (simp add: add_searched_id_def Let_def)

lemma add_searched_id_tick [simp]: "tick (add_searched_id out t x w) = Suc (tick w)"
  by (simp add: add_searched_id_def Let_def)

subsection \<open>What each operation does to the world\<close>

lemma triggers_0_dispatched: "triggers evs = 0 \<Longrightarrow> dispatched evs = []"
  by (induction evs rule: dispatched.induct) simp_all

lemma quiet_step_refl [simp]: "quiet_step w w"
  by (simp add: quiet_step_def)

lemma quiet_step_trans: "quiet_step w w' \<Longrightarrow> quiet_step w' w'' \<Longrightarrow> quiet_step w w''"
  by (auto simp: quiet_step_def)

lemma quiet_step_advance [simp]: "quiet_step w (advance w)"
  by (simp add: quiet_step_def)

lemma quiet_stepD:
  "quiet_step w w' \<Longrightarrow> triggers (issued w w') = 0 \<and> dispatched (issued w w') = []"
  by (auto simp: quiet_step_def triggers_0_dispatched)

lemma get_searched_ids_fst:
  "fst (get_searched_ids out t w) = (if db_fails out (tick w) then {} else fst ` set (tables w t))"
  by (simp add: get_searched_ids_def)

lemma get_searched_ids_snd [simp]: "snd (get_searched_ids out t w) = advance w"
  by (simp add: get_searched_ids_def)

lemma wipe_table_tick [simp]: "tick (wipe_table out t w) = Suc (tick w)"
  by (simp add: wipe_table_def)

lemma wipe_table_ok:
  "\<not> db_fails out (tick w) \<Longrightarrow>
     tables (wipe_table out t w) = (tables w)(t := []) \<and>
     trace (wipe_table out t w) = trace w @ [Wiped t]"
  by (simp add: wipe_table_def)

lemma wipe_table_failed:
  "db_fails out (tick w) \<Longrightarrow>
     tables (wipe_table out t w) = tables w \<and> trace (wipe_table out t w) = trace w"
  by (simp add: wipe_table_def)

lemma wipe_table_quiet [simp]: "quiet_step w (wipe_table out t w)"
  by (simp add: wipe_table_def quiet_step_def)

lemma check_safety_net_quiet [simp]: "quiet_step w (check_safety_net out cfg t w)"
proof -
  have "quiet_step w (wipe_table out t (advance w))"
    by (rule quiet_step_trans [OF quiet_step_advance wipe_table_quiet])
  then show ?thesis
    by (simp add: check_safety_net_def split: option.splits)
qed

lemma fetch_ids_from_endpoint_snd [simp]:
  "snd (fetch_ids_from_endpoint out url api_key endpoint_suffix w) =
     emit (Get (fmt url @ endpoint_suffix)) (advance w)"
  by (simp add: fetch_ids_from_endpoint_def Let_def
      split: response.splits body.splits option.splits)

lemma quiet_step_get [simp]: "quiet_step w (emit (Get endpoint) (advance w))"
  by (simp add: quiet_step_def)

lemma quiet_step_get2 [simp]:
  "quiet_step w (emit (Get endpoint') (advance (emit (Get endpoint) (advance w))))"
  by (simp add: quiet_step_def)

lemma get_combined_content_quiet [simp]:
  "quiet_step w (snd (get_combined_content out app_name url api_key limit cutoff_limit w))"
  by (simp add: get_combined_content_def Let_def case_prod_beta
      split: response.splits option.splits)

lemma get_combined_content_tables [simp]:
  "tables (snd (get_combined_content out app_name url api_key limit cutoff_limit w)) = tables w"
  by (simp add: get_combined_content_def Let_def case_prod_beta
      split: response.splits option.splits)

lemma get_combined_content_distinct [simp]:
  "distinct (fst (get_combined_content out app_name url api_key limit cutoff_limit w))"
  by (simp add: get_combined_content_def Let_def case_prod_beta
      split: response.splits option.splits)

lemma get_combined_content_flag:
  "(0 < c) = (0 < c') \<Longrightarrow>
     get_combined_content out app_name url api_key limit c w =
     get_combined_content out app_name url api_key limit c' w"
  by (cases "0 < c")
    (simp_all add: get_combined_content_def Let_def split: response.splits option.splits)

lemma search_one_trace:
  "\<exists>evs. trace (search_one out cfg app_name url api_key item_id w) = trace w @ evs \<and>
     triggers evs = 1 \<and> set (dispatched evs) \<subseteq> {item_id}"
  by (simp add: search_one_def Let_def)

lemma trigger_search_trace:
  "\<exists>evs. trace (trigger_search out cfg app_name url api_key item_ids w) = trace w @ evs \<and>
     triggers evs = length item_ids \<and> set (dispatched evs) \<subseteq> set item_ids"
proof (induction item_ids arbitrary: w)
  case Nil
  then show ?case by simp
next
  case (Cons item_id item_ids)
  let ?w1 = "search_one out cfg app_name url api_key item_id w"
  from search_one_trace obtain evs1 where
    one: "trace ?w1 = trace w @ evs1" "triggers evs1 = 1" "set (dispatched evs1) \<subseteq> {item_id}"
    by blast
  from Cons.IH [of ?w1] obtain evs2 where
    rest: "trace (trigger_search out cfg app_name url api_key item_ids ?w1) = trace ?w1 @ evs2"
      "triggers evs2 = length item_ids" "set (dispatched evs2) \<subseteq> set item_ids"
    by blast
  have "trace (trigger_search out cfg app_name url api_key (item_id # item_ids) w) =
      trace w @ (evs1 @ evs2)"
    by (simp add: one rest)
  moreover have "triggers (evs1 @ evs2) = length (item_id # item_ids)"
    by (simp add: one rest)
  moreover have "set (dispatched (evs1 @ evs2)) \<subseteq> set (item_id # item_ids)"
    using one(3) rest(3) by auto
  ultimately show ?case by blast
qed

lemma search_one_delay_only:
  "REQUEST_DELAY_SECONDS cfg = REQUEST_DELAY_SECONDS cfg' \<Longrightarrow>
     search_one out cfg app_name url api_key item_id w =
     search_one out cfg' app_name url api_key item_id w"
  by (simp add: search_one_def Let_def)

lemma trigger_search_delay_only:
  "REQUEST_DELAY_SECONDS cfg = REQUEST_DELAY_SECONDS cfg' \<Longrightarrow>
     trigger_search out cfg app_name url api_key item_ids w =
     trigger_search out cfg' app_name url api_key item_ids w"
  by (induction item_ids arbitrary: w) (simp_all add: search_one_delay_only [of cfg cfg'])

subsection \<open>The steps of a cycle\<close>

lemma run_cycle_disabled: "\<not> enabled cfg app_name \<Longrightarrow> run_cycle out cfg app_name w = w"
  by (auto simp: run_cycle_def enabled_def)

lemma run_cycle_enabled:
  "enabled cfg app_name \<Longrightarrow>
     run_cycle out cfg app_name w =
       fetch_filter_dispatch out cfg app_name
         (check_safety_net out cfg (app_name @ ''_searches'') w)"
  by (auto simp: run_cycle_def enabled_def)

lemma cycle_steps:
  assumes "enabled cfg app_name"
  shows "run_cycle out cfg app_name w =
     (if fst (fetched out cfg app_name w) = [] then snd (fetched out cfg app_name w)
      else if filter_step (fst (fetched out cfg app_name w)) (fst (loaded out cfg app_name w)) = []
      then (if fst (loaded out cfg app_name w) \<noteq> {}
            then wipe_table out (app_name @ ''_searches'') (snd (loaded out cfg app_name w))
            else snd (loaded out cfg app_name w))
      else trigger_search out cfg app_name (url_of cfg app_name) (api_key_of cfg app_name)
             (py_slice_to (limit_of cfg app_name)
                (filter_step (fst (fetched out cfg app_name w)) (fst (loaded out cfg app_name w))))
             (snd (loaded out cfg app_name w)))"
  by (simp add: run_cycle_enabled [OF assms] fetch_filter_dispatch_def fetched_def loaded_def
      url_of_def api_key_of_def limit_of_def Let_def case_prod_beta)

lemma fetched_quiet: "quiet_step w (snd (fetched out cfg app_name w))"
  unfolding fetched_def
  by (rule quiet_step_trans [OF check_safety_net_quiet get_combined_content_quiet])

lemma loaded_quiet: "quiet_step w (snd (loaded out cfg app_name w))"
  unfolding loaded_def get_searched_ids_snd
  by (rule quiet_step_trans [OF fetched_quiet quiet_step_advance])

lemma loaded_tick: "tick (snd (loaded out cfg app_name w)) = Suc (tick (snd (fetched out cfg app_name w)))"
  by (simp add: loaded_def)

lemma loaded_tables:
  "tables (snd (loaded out cfg app_name w)) = tables (check_safety_net out cfg (app_name @ ''_searches'') w)"
  by (simp add: loaded_def fetched_def)

lemma fetched_tables:
  "tables (snd (fetched out cfg app_name w)) = tables (check_safety_net out cfg (app_name @ ''_searches'') w)"
  by (simp add: fetched_def)

lemma cycle_trace:
  "\<exists>evs. trace (run_cycle out cfg app_name w) = trace w @ evs \<and>
     (triggers evs = 0 \<or>
      triggers evs = length (py_slice_to (limit_of cfg app_name)
         (filter_step (fst (fetched out cfg app_name w)) (fst (loaded out cfg app_name w))))) \<and>
     set (dispatched evs) \<subseteq>
       set (filter_step (fst (fetched out cfg app_name w)) (fst (loaded out cfg app_name w)))"
proof (cases "enabled cfg app_name")
  case False
  then show ?thesis by (simp add: run_cycle_disabled)
next
  case True
  let ?C = "fst (fetched out cfg app_name w)"
  let ?S = "fst (loaded out cfg app_name w)"
  let ?w2 = "snd (fetched out cfg app_name w)"
  let ?w3 = "snd (loaded out cfg app_name w)"
  let ?T = "filter_step ?C ?S"
  note steps = cycle_steps [OF True, of out w]
  show ?thesis
  proof (cases "?C = []")
    case True
    with steps have "run_cycle out cfg app_name w = ?w2" by simp
    with fetched_quiet [of w out cfg app_name] show ?thesis
      by (auto simp: quiet_step_def triggers_0_dispatched)
  next
    case nonempty: False
    show ?thesis
    proof (cases "?T = []")
      case True
      have "quiet_step w (run_cycle out cfg app_name w)"
      proof (cases "?S \<noteq> {}")
        case True
        with steps nonempty \<open>?T = []\<close>
        have "run_cycle out cfg app_name w = wipe_table out (app_name @ ''_searches'') ?w3"
          by simp
        with quiet_step_trans [OF loaded_quiet wipe_table_quiet] show ?thesis by simp
      next
        case False
        with steps nonempty \<open>?T = []\<close> have "run_cycle out cfg app_name w = ?w3" by simp
        with loaded_quiet [of w out cfg app_name] show ?thesis by simp
      qed
      then show ?thesis
        by (auto simp: quiet_step_def triggers_0_dispatched)
    next
      case False
      let ?batch = "py_slice_to (limit_of cfg app_name) ?T"
      from steps nonempty False
      have run: "run_cycle out cfg app_name w =
          trigger_search out cfg app_name (url_of cfg app_name) (api_key_of cfg app_name) ?batch ?w3"
        by simp
      from loaded_quiet [of w out cfg app_name] obtain evs1 where
        e1: "trace ?w3 = trace w @ evs1" "triggers evs1 = 0"
        by (auto simp: quiet_step_def)
      from trigger_search_trace [of out cfg app_name "url_of cfg app_name" "api_key_of cfg app_name" ?batch ?w3]
      obtain evs2 where
        e2: "trace (run_cycle out cfg app_name w) = trace ?w3 @ evs2"
          "triggers evs2 = length ?batch" "set (dispatched evs2) \<subseteq> set ?batch"
        unfolding run by blast
      have "trace (run_cycle out cfg app_name w) = trace w @ (evs1 @ evs2)"
        by (simp add: e1 e2)
      moreover have "triggers (evs1 @ evs2) = length ?batch"
        by (simp add: e1 e2)
      moreover have "set (dispatched (evs1 @ evs2)) \<subseteq> set ?T"
        using e2(3) set_py_slice_to [of "limit_of cfg app_name" ?T]
        by (auto simp: triggers_0_dispatched [OF e1(2)])
      ultimately show ?thesis by blast
    qed
  qed
qed

lemma search_one_dispatched:
  assumes "app_name = ''sonarr'' \<or> app_name = ''radarr''"
  shows "\<exists>evs. trace (search_one out cfg app_name url api_key item_id w) = trace w @ evs \<and>
     dispatched evs = [item_id]"
  using assms by (auto simp: search_one_def Let_def)

lemma trigger_search_dispatched:
  assumes "app_name = ''sonarr'' \<or> app_name = ''radarr''"
  shows "\<exists>evs. trace (trigger_search out cfg app_name url api_key item_ids w) = trace w @ evs \<and>
     dispatched evs = item_ids"
proof (induction item_ids arbitrary: w)
  case Nil
  then show ?case by simp
next
  case (Cons item_id item_ids)
  let ?w1 = "search_one out cfg app_name url api_key item_id w"
  from search_one_dispatched [OF assms] obtain evs1 where
    one: "trace ?w1 = trace w @ evs1" "dispatched evs1 = [item_id]"
    by blast
  from Cons.IH [of ?w1] obtain evs2 where
    rest: "trace (trigger_search out cfg app_name url api_key item_ids ?w1) = trace ?w1 @ evs2"
      "dispatched evs2 = item_ids"
    by blast
  have "trace (trigger_search out cfg app_name url api_key (item_id # item_ids) w) =
      trace w @ (evs1 @ evs2)"
    by (simp add: one rest)
  moreover have "dispatched (evs1 @ evs2) = item_id # item_ids"
    by (simp add: one rest)
  ultimately show ?case by blast
qed

lemma fetched_unknown_app:
  "app_name \<noteq> ''sonarr'' \<Longrightarrow> app_name \<noteq> ''radarr'' \<Longrightarrow> fst (fetched out cfg app_name w) = []"
  by (simp add: fetched_def get_combined_content_def)

lemma py_slice_to_Nil [simp]: "py_slice_to k [] = []"
  by (simp add: py_slice_to_def)

lemma cycle_dispatched:
  assumes "enabled cfg app_name"
  shows "dispatched (issued w (run_cycle out cfg app_name w)) =
     py_slice_to (limit_of cfg app_name)
       (filter_step (fst (fetched out cfg app_name w)) (fst (loaded out cfg app_name w)))"
proof -
  let ?C = "fst (fetched out cfg app_name w)"
  let ?S = "fst (loaded out cfg app_name w)"
  let ?w3 = "snd (loaded out cfg app_name w)"
  let ?T = "filter_step ?C ?S"
  note steps = cycle_steps [OF assms, of out w]
  show ?thesis
  proof (cases "?T = []")
    case True
    have "quiet_step w (run_cycle out cfg app_name w)"
    proof (cases "?C = []")
      case True
      with steps have "run_cycle out cfg app_name w = snd (fetched out cfg app_name w)" by simp
      with fetched_quiet [of w out cfg app_name] show ?thesis by simp
    next
      case False
      show ?thesis
      proof (cases "?S \<noteq> {}")
        case True
        with steps False \<open>?T = []\<close>
        have "run_cycle out cfg app_name w = wipe_table out (app_name @ ''_searches'') ?w3"
          by simp
        with quiet_step_trans [OF loaded_quiet wipe_table_quiet] show ?thesis by simp
      next
        case empty: False
        with steps False \<open>?T = []\<close> have "run_cycle out cfg app_name w = ?w3" by simp
        with loaded_quiet [of w out cfg app_name] show ?thesis by simp
      qed
    qed
    with True show ?thesis by (simp add: quiet_stepD)
  next
    case False
    then have nonempty: "?C \<noteq> []" by (auto simp: filter_step_def)
    with fetched_unknown_app [of app_name out cfg w]
    have app: "app_name = ''sonarr'' \<or> app_name = ''radarr''" by blast
    let ?batch = "py_slice_to (limit_of cfg app_name) ?T"
    from steps nonempty False
    have run: "run_cycle out cfg app_name w =
        trigger_search out cfg app_name (url_of cfg app_name) (api_key_of cfg app_name) ?batch ?w3"
      by simp
    from loaded_quiet [of w out cfg app_name] obtain evs1 where
      e1: "trace ?w3 = trace w @ evs1" "triggers evs1 = 0"
      by (auto simp: quiet_step_def)
    from trigger_search_dispatched [OF app, of out cfg "url_of cfg app_name"
        "api_key_of cfg app_name" ?batch ?w3]
    obtain evs2 where
      e2: "trace (run_cycle out cfg app_name w) = trace ?w3 @ evs2" "dispatched evs2 = ?batch"
      unfolding run by blast
    have "trace (run_cycle out cfg app_name w) = trace w @ (evs1 @ evs2)"
      by (simp add: e1 e2)
    then have "issued w (run_cycle out cfg app_name w) = evs1 @ evs2"
      by (rule issued_append)
    then show ?thesis
      by (simp add: e2 triggers_0_dispatched [OF e1(2)])
  qed
qed

lemma fetch_filter_dispatch_extends:
  "\<exists>evs. trace (fetch_filter_dispatch out cfg app_name w1) = trace w1 @ evs"
proof -
  let ?url = "if app_name = ''sonarr'' then SONARR_URL cfg else RADARR_URL cfg"
  let ?key = "if app_name = ''sonarr'' then SONARR_API_KEY cfg else RADARR_API_KEY cfg"
  let ?limit = "if app_name = ''sonarr'' then SONARR_LIMIT cfg else RADARR_LIMIT cfg"
  let ?cutoff = "if app_name = ''sonarr'' then SONARR_CUTOFF_LIMIT cfg else RADARR_CUTOFF_LIMIT cfg"
  let ?got = "get_combined_content out app_name ?url ?key ?limit ?cutoff w1"
  let ?w3 = "advance (snd ?got)"
  let ?S = "fst (get_searched_ids out (app_name @ ''_searches'') (snd ?got))"
  let ?T = "filter_step (fst ?got) ?S"
  have steps: "fetch_filter_dispatch out cfg app_name w1 =
     (if fst ?got = [] then snd ?got
      else if ?T = [] then (if ?S \<noteq> {} then wipe_table out (app_name @ ''_searches'') ?w3 else ?w3)
      else trigger_search out cfg app_name ?url ?key (py_slice_to ?limit ?T) ?w3)"
    by (simp add: fetch_filter_dispatch_def Let_def case_prod_beta)
  have q2: "quiet_step w1 (snd ?got)" by simp
  have q3: "quiet_step w1 ?w3"
    by (rule quiet_step_trans [OF q2 quiet_step_advance])
  have q4: "quiet_step w1 (wipe_table out (app_name @ ''_searches'') ?w3)"
    by (rule quiet_step_trans [OF q3 wipe_table_quiet])
  have q5: "\<exists>evs. trace (trigger_search out cfg app_name ?url ?key (py_slice_to ?limit ?T) ?w3) =
      trace w1 @ evs"
  proof -
    from q3 obtain evs1 where "trace ?w3 = trace w1 @ evs1"
      unfolding quiet_step_def by blast
    moreover from trigger_search_trace [of out cfg app_name ?url ?key "py_slice_to ?limit ?T" ?w3]
    obtain evs2 where
      "trace (trigger_search out cfg app_name ?url ?key (py_slice_to ?limit ?T) ?w3) =
         trace ?w3 @ evs2"
      by blast
    ultimately have "trace (trigger_search out cfg app_name ?url ?key (py_slice_to ?limit ?T) ?w3) =
        trace w1 @ (evs1 @ evs2)"
      by simp
    then show ?thesis by blast
  qed
  from q2 have e2: "\<exists>evs. trace (snd ?got) = trace w1 @ evs"
    unfolding quiet_step_def by blast
  from q3 have e3: "\<exists>evs. trace ?w3 = trace w1 @ evs"
    unfolding quiet_step_def by blast
  from q4 have e4: "\<exists>evs. trace (wipe_table out (app_name @ ''_searches'') ?w3) = trace w1 @ evs"
    unfolding quiet_step_def by blast
  show ?thesis
  proof (cases "fst ?got = []")
    case True
    then have "fetch_filter_dispatch out cfg app_name w1 = snd ?got"
      by (simp add: steps)
    with e2 show ?thesis by metis
  next
    case nonempty: False
    show ?thesis
    proof (cases "?T = []")
      case True
      show ?thesis
      proof (cases "?S \<noteq> {}")
        case True
        with nonempty \<open>?T = []\<close>
        have "fetch_filter_dispatch out cfg app_name w1 =
            wipe_table out (app_name @ ''_searches'') ?w3"
          by (simp add: steps)
        with e4 show ?thesis by metis
      next
        case False
        with nonempty \<open>?T = []\<close>
        have "fetch_filter_dispatch out cfg app_name w1 = ?w3"
          by (simp add: steps)
        with e3 show ?thesis by metis
      qed
    next
      case False
      with nonempty
      have "fetch_filter_dispatch out cfg app_name w1 =
          trigger_search out cfg app_name ?url ?key (py_slice_to ?limit ?T) ?w3"
        by (simp add: steps)
      with q5 show ?thesis by metis
    qed
  qed
qed

lemma run_cycle_trace_extends:
  "trace (run_cycle out cfg app_name w) = trace w @ issued w (run_cycle out cfg app_name w)"
  using cycle_trace [of out cfg app_name w] by (auto simp: issued_def)

subsection \<open>Settings a cycle does not read\<close>

lemma run_cycle_cutoff_flag:
  assumes "REQUEST_DELAY_SECONDS cfg' = REQUEST_DELAY_SECONDS cfg"
    and "MAX_CYCLE_DAYS cfg' = MAX_CYCLE_DAYS cfg"
    and "SONARR_URL cfg' = SONARR_URL cfg" and "SONARR_API_KEY cfg' = SONARR_API_KEY cfg"
    and "SONARR_LIMIT cfg' = SONARR_LIMIT cfg" and "SONARR_ENABLED cfg' = SONARR_ENABLED cfg"
    and "RADARR_URL cfg' = RADARR_URL cfg" and "RADARR_API_KEY cfg' = RADARR_API_KEY cfg"
    and "RADARR_LIMIT cfg' = RADARR_LIMIT cfg" and "RADARR_ENABLED cfg' = RADARR_ENABLED cfg"
    and "(0 < SONARR_CUTOFF_LIMIT cfg') = (0 < SONARR_CUTOFF_LIMIT cfg)"
    and "(0 < RADARR_CUTOFF_LIMIT cfg') = (0 < RADARR_CUTOFF_LIMIT cfg)"
  shows "run_cycle out cfg' app_name w = run_cycle out cfg app_name w"
proof -
  have safety: "check_safety_net out cfg' t w = check_safety_net out cfg t w" for t
    by (simp add: check_safety_net_def assms(2) cong: option.case_cong)
  have fetch: "get_combined_content out app_name u k l
        (if app_name = ''sonarr'' then SONARR_CUTOFF_LIMIT cfg' else RADARR_CUTOFF_LIMIT cfg') w1 =
      get_combined_content out app_name u k l
        (if app_name = ''sonarr'' then SONARR_CUTOFF_LIMIT cfg else RADARR_CUTOFF_LIMIT cfg) w1"
    for u k l w1
    by (rule get_combined_content_flag) (simp add: assms)
  have search: "trigger_search out cfg' a u k ids w1 =
      trigger_search out cfg a u k ids w1" for a u k ids w1
    by (rule trigger_search_delay_only) (simp add: assms)
  have "fetch_filter_dispatch out cfg' app_name w1 = fetch_filter_dispatch out cfg app_name w1"
    for w1
    by (simp add: fetch_filter_dispatch_def assms(3-10) fetch search Let_def case_prod_beta)
  then show ?thesis
    by (simp add: run_cycle_def safety assms)
qed

subsection \<open>Sub-queries that do tolerate a failure\<close>

text \<open>
  On the Sonarr path each sub-query has its own \<^verbatim>\<open>try\<close>: the candidates are the IDs
  of the missing listing together with those of the cutoff listing, whatever either
  request did. On the Radarr path this holds once the movie listing has been read.
\<close>

lemma sonarr_candidates:
  "set (fst (get_combined_content out ''sonarr'' url api_key limit cutoff_limit w)) =
     set (fst (fetch_ids_from_endpoint out url api_key
       ''/api/v3/wanted/missing?page=1&pageSize=1000&sortKey=airDateUtc&sortDir=desc'' w)) \<union>
     (if cutoff_limit > 0
      then set (fst (fetch_ids_from_endpoint out url api_key
        ''/api/v3/wanted/cutoff?page=1&pageSize=1000&sortKey=airDateUtc&sortDir=desc''
        (snd (fetch_ids_from_endpoint out url api_key
          ''/api/v3/wanted/missing?page=1&pageSize=1000&sortKey=airDateUtc&sortDir=desc'' w))))
      else {})"
  by (simp add: get_combined_content_def case_prod_beta del: fetch_ids_from_endpoint_snd)

lemma radarr_candidates:
  assumes "http_get out (tick w) (fmt url @ ''/api/v3/movie'') api_key = Json movies"
    and "movies_missing movies = Some missing_ids"
  shows "set (fst (get_combined_content out ''radarr'' url api_key limit cutoff_limit w)) =
     set missing_ids \<union>
     (if cutoff_limit > 0
      then set (fst (fetch_ids_from_endpoint out url api_key
        ''/api/v3/wanted/cutoff?page=1&pageSize=1000&sortKey=title&sortDir=asc''
        (emit (Get (fmt url @ ''/api/v3/movie'')) (advance w))))
      else {})"
  using assms by (simp add: get_combined_content_def Let_def case_prod_beta)

subsection \<open>Pauses of the search trigger\<close>

lemma search_one_succeeded:
  assumes "http_post out (tick w) (fmt url @ ''/api/v3/command'') api_key
      (if app_name = ''sonarr'' then EpisodeSearch [item_id]
       else if app_name = ''radarr'' then MoviesSearch [item_id] else Empty_Payload)"
    and "0 < REQUEST_DELAY_SECONDS cfg"
  shows "last (trace (search_one out cfg app_name url api_key item_id w)) =
     Sleep (REQUEST_DELAY_SECONDS cfg)"
  using assms by (simp add: search_one_def Let_def)

lemma search_one_failed:
  assumes "\<not> http_post out (tick w) (fmt url @ ''/api/v3/command'') api_key
      (if app_name = ''sonarr'' then EpisodeSearch [item_id]
       else if app_name = ''radarr'' then MoviesSearch [item_id] else Empty_Payload)"
  shows "trace (search_one out cfg app_name url api_key item_id w) =
     trace w @ [Post (fmt url @ ''/api/v3/command'')
       (if app_name = ''sonarr'' then EpisodeSearch [item_id]
        else if app_name = ''radarr'' then MoviesSearch [item_id] else Empty_Payload)]"
  using assms by (simp add: search_one_def Let_def)

lemma search_one_no_delay:
  "REQUEST_DELAY_SECONDS cfg \<le> 0 \<Longrightarrow>
     \<exists>target payload. trace (search_one out cfg app_name url api_key item_id w) =
       trace w @ [Post target payload]"
  by (simp add: search_one_def Let_def)

lemma trigger_search_no_delay:
  "REQUEST_DELAY_SECONDS cfg \<le> 0 \<Longrightarrow>
     \<exists>evs. trace (trigger_search out cfg app_name url api_key item_ids w) = trace w @ evs \<and>
       list_all is_post evs"
proof (induction item_ids arbitrary: w)
  case Nil
  then show ?case by simp
next
  case (Cons item_id item_ids)
  let ?w1 = "search_one out cfg app_name url api_key item_id w"
  from search_one_no_delay [OF Cons.prems] obtain target payload where
    one: "trace ?w1 = trace w @ [Post target payload]"
    by blast
  from Cons.IH [OF Cons.prems, of ?w1] obtain evs where
    rest: "trace (trigger_search out cfg app_name url api_key item_ids ?w1) = trace ?w1 @ evs"
      "list_all is_post evs"
    by blast
  have "trace (trigger_search out cfg app_name url api_key (item_id # item_ids) w) =
      trace w @ (Post target payload # evs)"
    by (simp add: one rest)
  moreover have "list_all is_post (Post target payload # evs)"
    by (simp add: rest)
  ultimately show ?case by blast
qed

subsection \<open>Unfolding a cycle on concrete inputs\<close>

lemmas cycle_defs =
  run_cycle_def fetch_filter_dispatch_def fetched_def loaded_def check_safety_net_def
  oldest_timestamp_def timedelta_days_def get_combined_content_def fetch_ids_from_endpoint_def
  get_searched_ids_def filter_step_def wipe_table_def search_one_def add_searched_id_def
  insert_or_ignore_def py_list_set_def py_slice_to_def fmt_def advance_def emit_def issued_def
  enabled_def limit_of_def url_of_def api_key_of_def

lemmas fixture_defs =
  serving_def settings_def fresh_def wanted_def missing_suffix_def cutoff_suffix_def

section \<open>The claims\<close>

subsection \<open>C1: completion reset\<close>

text \<open>
  C1 says that whenever the fetched candidate set \<open>C\<close> is a subset of the ledger's
  searched set \<open>S\<close> and \<open>S\<close> is not empty, one cycle wipes the ledger and triggers no
  search, also when \<open>C\<close> is empty. Lines 237 to 239 end the cycle as soon as the fetch
  returns no candidate, before the ledger is read: with an empty listing and the ledger
  \<open>{5}\<close> the ledger is still \<open>{5}\<close> after the cycle.
\<close>

theorem completion_reset_fails_on_empty:
  "fst (fetched (serving [] Failed) settings ''sonarr'' (fresh [(5, 0)])) = [] \<and>
   fst ` set (tables (fresh [(5, 0)]) ''sonarr_searches'') = {5} \<and>
   tables (run_cycle (serving [] Failed) settings ''sonarr'' (fresh [(5, 0)])) ''sonarr_searches''
     = [(5, 0)]"
  by (simp add: cycle_defs fixture_defs)

text \<open>
  C1, amended: for an enabled category, when the fetched candidate list \<open>C\<close> is not
  empty, is a subset of the searched set \<open>S\<close> that the filter step loads (so \<open>S\<close> is not
  empty), and the database accepts the wipe, the cycle leaves the category's ledger
  empty and triggers no search. When \<open>C\<close> is empty the cycle ends after the fetch: it
  triggers no search and the tables are as the safety net left them.
\<close>

theorem completion_reset:
  assumes "enabled cfg app_name"
  shows "(fst (fetched out cfg app_name w) \<noteq> [] \<and>
          set (fst (fetched out cfg app_name w)) \<subseteq> fst (loaded out cfg app_name w) \<and>
          fst (loaded out cfg app_name w) \<noteq> {} \<and>
          \<not> db_fails out (tick (snd (loaded out cfg app_name w))) \<longrightarrow>
            tables (run_cycle out cfg app_name w) (app_name @ ''_searches'') = [] \<and>
            triggers (issued w (run_cycle out cfg app_name w)) = 0) \<and>
         (fst (fetched out cfg app_name w) = [] \<longrightarrow>
            tables (run_cycle out cfg app_name w) =
              tables (check_safety_net out cfg (app_name @ ''_searches'') w) \<and>
            triggers (issued w (run_cycle out cfg app_name w)) = 0)"
proof (intro conjI impI)
  assume h: "fst (fetched out cfg app_name w) \<noteq> [] \<and>
      set (fst (fetched out cfg app_name w)) \<subseteq> fst (loaded out cfg app_name w) \<and>
      fst (loaded out cfg app_name w) \<noteq> {} \<and>
      \<not> db_fails out (tick (snd (loaded out cfg app_name w)))"
  then have "filter_step (fst (fetched out cfg app_name w)) (fst (loaded out cfg app_name w)) = []"
    by (auto simp: filter_step_def filter_empty_conv)
  with h have run: "run_cycle out cfg app_name w =
      wipe_table out (app_name @ ''_searches'') (snd (loaded out cfg app_name w))"
    by (simp add: cycle_steps [OF assms])
  from h show "tables (run_cycle out cfg app_name w) (app_name @ ''_searches'') = []"
    by (simp add: run wipe_table_ok)
  have "quiet_step w (run_cycle out cfg app_name w)"
    unfolding run by (rule quiet_step_trans [OF loaded_quiet wipe_table_quiet])
  then show "triggers (issued w (run_cycle out cfg app_name w)) = 0"
    by (simp add: quiet_stepD)
next
  assume "fst (fetched out cfg app_name w) = []"
  then have run: "run_cycle out cfg app_name w = snd (fetched out cfg app_name w)"
    by (simp add: cycle_steps [OF assms])
  show "tables (run_cycle out cfg app_name w) =
      tables (check_safety_net out cfg (app_name @ ''_searches'') w)"
    by (simp add: run fetched_tables)
  show "triggers (issued w (run_cycle out cfg app_name w)) = 0"
    unfolding run using fetched_quiet [of w out cfg app_name] by (simp add: quiet_stepD)
qed

theorem completion_reset_witness:
  "tables (run_cycle (serving [5] Failed) settings ''sonarr'' (fresh [(5, 0)])) ''sonarr_searches''
     = [] \<and>
   triggers (issued (fresh [(5, 0)])
     (run_cycle (serving [5] Failed) settings ''sonarr'' (fresh [(5, 0)]))) = 0"
proof -
  have e: "enabled settings ''sonarr''"
    by (simp add: enabled_def settings_def)
  have h: "fst (fetched (serving [5] Failed) settings ''sonarr'' (fresh [(5, 0)])) \<noteq> [] \<and>
      set (fst (fetched (serving [5] Failed) settings ''sonarr'' (fresh [(5, 0)]))) \<subseteq>
        fst (loaded (serving [5] Failed) settings ''sonarr'' (fresh [(5, 0)])) \<and>
      fst (loaded (serving [5] Failed) settings ''sonarr'' (fresh [(5, 0)])) \<noteq> {} \<and>
      \<not> db_fails (serving [5] Failed)
          (tick (snd (loaded (serving [5] Failed) settings ''sonarr'' (fresh [(5, 0)]))))"
    by (simp add: cycle_defs fixture_defs)
  from completion_reset [OF e, of "serving [5] Failed" "fresh [(5, 0)]"] h
  show ?thesis by simp
qed

subsection \<open>C2: the order of the targets\<close>

text \<open>
  C2 says that the filter step computes the candidates minus the searched IDs in the
  order in which the IDs were first discovered. The candidates reach the filter through
  \<^verbatim>\<open>list(set(final_ids))\<close> (line 190), which lists them in the order of the set's
  slots. With the missing listing \<open>[3, 1, 2]\<close>, where CPython keeps small integers in
  the slot of their value, the target list is \<open>[1, 2, 3]\<close> and a batch of two searches
  \<open>1\<close> and \<open>2\<close>, while discovery order would give \<open>[3, 1, 2]\<close> and \<open>3\<close> and \<open>1\<close>.
\<close>

theorem discovery_order_not_kept:
  "fst (fetch_ids_from_endpoint (serving [3, 1, 2] Failed) (Some ''http://s'') (Some ''k'')
      missing_suffix (fresh [])) = [3, 1, 2] \<and>
   spec_target [3, 1, 2] [] {} = [3, 1, 2] \<and>
   filter_step (fst (fetched (serving [3, 1, 2] Failed) settings ''sonarr'' (fresh [])))
     (fst (loaded (serving [3, 1, 2] Failed) settings ''sonarr'' (fresh []))) = [1, 2, 3] \<and>
   dispatched (issued (fresh [])
     (run_cycle (serving [3, 1, 2] Failed) settings ''sonarr'' (fresh []))) = [1, 2]"
  by (simp add: cycle_defs fixture_defs spec_target_def first_discovery_def)

text \<open>
  C2, amended: the filter step computes the candidates minus the searched IDs, each
  once, in the order of the candidate list that the fetch returned (the iteration order
  of the set, not the order of discovery); the batch dispatched in the cycle is the
  slice of that target list by the limit, in the order of that list, so it is
  determined by the order of the candidate list.
\<close>

theorem filter_keeps_candidate_order:
  "set (filter_step (fst (fetched out cfg app_name w)) (fst (loaded out cfg app_name w))) =
     set (fst (fetched out cfg app_name w)) - fst (loaded out cfg app_name w) \<and>
   distinct (filter_step (fst (fetched out cfg app_name w)) (fst (loaded out cfg app_name w))) \<and>
   subseq (filter_step (fst (fetched out cfg app_name w)) (fst (loaded out cfg app_name w)))
     (fst (fetched out cfg app_name w)) \<and>
   (enabled cfg app_name \<longrightarrow>
      dispatched (issued w (run_cycle out cfg app_name w)) =
        py_slice_to (limit_of cfg app_name)
          (filter_step (fst (fetched out cfg app_name w)) (fst (loaded out cfg app_name w))))"
proof -
  have "distinct (fst (fetched out cfg app_name w))"
    by (simp add: fetched_def)
  then show ?thesis
    by (auto simp: filter_step_def cycle_dispatched)
qed

theorem filter_keeps_candidate_order_witness:
  "subseq [9, 7] (fst (fetched (serving [9, 5, 7] Failed) settings ''sonarr'' (fresh [(5, 0)]))) \<and>
   dispatched (issued (fresh [(5, 0)])
     (run_cycle (serving [9, 5, 7] Failed) settings ''sonarr'' (fresh [(5, 0)]))) = [9, 7]"
proof -
  have e: "enabled settings ''sonarr''"
    by (simp add: enabled_def settings_def)
  have t: "filter_step (fst (fetched (serving [9, 5, 7] Failed) settings ''sonarr'' (fresh [(5, 0)])))
     (fst (loaded (serving [9, 5, 7] Failed) settings ''sonarr'' (fresh [(5, 0)]))) = [9, 7]"
    by (simp add: cycle_defs fixture_defs)
  have l: "py_slice_to (limit_of settings ''sonarr'') [9, 7] = [9, 7 :: int]"
    by (simp add: py_slice_to_def limit_of_def settings_def)
  from filter_keeps_candidate_order [of "serving [9, 5, 7] Failed" settings "''sonarr''" "fresh [(5, 0)]"]
    e t l
  show ?thesis by simp
qed

subsection \<open>C3: a failing sub-query\<close>

text \<open>
  C3 says that in every category a failure of one sub-query empties only that
  sub-query's contribution, and the other sub-query's IDs still reach the candidate set.
  On the Sonarr path this holds (\<open>sonarr_candidates\<close>). On the Radarr path the request
  for the movie listing and the cutoff sub-query share one \<^verbatim>\<open>try\<close> (lines 167 to
  187): when the movie request fails with the cutoff sub-query enabled, the cutoff
  endpoint, which would answer with ID 7, is never asked, and the candidate list is
  empty.
\<close>

theorem radarr_missing_failure_drops_cutoff:
  "fst (fetch_ids_from_endpoint radarr_down (Some ''http://r'') (Some ''k'') cutoff_suffix
      (fresh [])) = [7] \<and>
   fst (get_combined_content radarr_down ''radarr'' (Some ''http://r'') (Some ''k'') 2 1 (fresh []))
     = [] \<and>
   trace (snd (get_combined_content radarr_down ''radarr'' (Some ''http://r'') (Some ''k'') 2 1
     (fresh []))) = [Get ''http://r/api/v3/movie'']"
  by (simp add: cycle_defs fixture_defs radarr_down_def)

subsection \<open>C4: the pause after a submission\<close>

text \<open>
  C4 says that the pacing delay is observed after every submission, failed or not, and
  that a delay of zero disables it. The pause (lines 210 and 211) stands inside the
  \<^verbatim>\<open>try\<close>, after the request: a request that fails jumps over it. With a delay
  of 2 and the IDs 1 and 2, where the request for 1 fails, the request for 2 follows
  at once, and the only pause comes after it. (A delay of zero or less does add no
  pause: \<open>trigger_search_no_delay\<close>.)
\<close>

theorem no_pause_after_failed_submission:
  "trace (trigger_search flaky settings ''sonarr'' (Some ''http://s'') (Some ''k'') [1, 2] (fresh []))
     = [Post ''http://s/api/v3/command'' (EpisodeSearch [1]),
        Post ''http://s/api/v3/command'' (EpisodeSearch [2]),
        Sleep 2]"
  by (simp add: cycle_defs fixture_defs flaky_def)

subsection \<open>C5: the key of the scheduler interval\<close>

text \<open>
  C5 says that the scheduler interval is read from the configuration key
  \<open>RUN_EVERY_MINUTES\<close>, with default 15. Line 18 reads the key \<open>RUN_EVERY\<close> into the
  variable \<open>RUN_EVERY_MINUTES\<close>: an environment that sets only \<open>RUN_EVERY_MINUTES\<close> to 5
  keeps the interval at 15.
\<close>

theorem interval_not_from_RUN_EVERY_MINUTES:
  "map_option RUN_EVERY_MINUTES (load_config [''RUN_EVERY_MINUTES'' \<mapsto> ''5'']) = Some 15 \<and>
   map_option RUN_EVERY_MINUTES (load_config [''RUN_EVERY_MINUTES'' \<mapsto> ''5'']) \<noteq> Some 5"
  by (simp add: load_config_def getenv_def truthy_def)

text \<open>
  C5, amended: the scheduler interval is read from the configuration key \<open>RUN_EVERY\<close>,
  and is 15 minutes when that key is unset.
\<close>

theorem interval_key_is_RUN_EVERY:
  assumes "load_config environ = Some cfg"
  shows "(environ ''RUN_EVERY'' = None \<longrightarrow> RUN_EVERY_MINUTES cfg = 15) \<and>
         (\<forall>v. environ ''RUN_EVERY'' = Some v \<longrightarrow> py_int v = Some (RUN_EVERY_MINUTES cfg))"
  using load_config_Some(1) [OF assms] by (auto simp: getenv_def)

theorem interval_key_is_RUN_EVERY_witness:
  "\<exists>cfg. load_config [''RUN_EVERY'' \<mapsto> ''5''] = Some cfg \<and> RUN_EVERY_MINUTES cfg = 5"
proof -
  obtain cfg where c: "load_config [''RUN_EVERY'' \<mapsto> ''5''] = Some cfg"
    by (simp add: load_config_def getenv_def truthy_def)
  from interval_key_is_RUN_EVERY [OF c] have "RUN_EVERY_MINUTES cfg = 5"
    by simp
  with c show ?thesis by blast
qed

subsection \<open>C6: the safety net\<close>

text \<open>
  C6 says that for every ledger whose oldest entry is older than \<open>MAX_CYCLE_DAYS\<close> at the
  start of a cycle, the cycle wipes the ledger before it fetches. The safety net is
  fail-soft (lines 102 to 116, 87 to 95): with a ledger of one entry, 31 days old, and
  the threshold at 30 days, the ledger is still there after the cycle when the database
  refuses the wipe; and with the threshold at \<open>-1000000000\<close> days, which every age
  exceeds, \<^verbatim>\<open>timedelta\<close> raises OverflowError inside the \<^verbatim>\<open>try\<close> and nothing is
  wiped.
\<close>

theorem safety_net_is_fail_soft:
  "(30 :: int) * 86400000000 < 2764800000000 - 86400000000 \<and>
   tables (run_cycle (locked 2764800000000) settings ''sonarr'' (fresh [(9, 86400000000)]))
     ''sonarr_searches'' = [(9, 86400000000)] \<and>
   (- 1000000000 :: int) * 86400000000 < 2764800000000 - 86400000000 \<and>
   tables (run_cycle (reading 2764800000000) (settings\<lparr>MAX_CYCLE_DAYS := - 1000000000\<rparr>)
     ''sonarr'' (fresh [(9, 86400000000)])) ''sonarr_searches'' = [(9, 86400000000)]"
  by (simp add: cycle_defs fixture_defs locked_def reading_def)

text \<open>
  C6, amended: take a ledger with an entry whose timestamp \<open>t\<close> is the least of the
  table, more than \<open>MAX_CYCLE_DAYS\<close> days (of 86400000000 microseconds) before the clock
  reading at the start of the cycle. When \<open>MAX_CYCLE_DAYS\<close> is within the 999999999 days
  of \<^verbatim>\<open>timedelta\<close> and the database answers the read and accepts the wipe, the
  safety net empties the ledger and logs the wipe, the fetch sees the empty ledger, and
  the wipe is the first thing an enabled cycle issues, before any request, whatever the
  cycle finds afterwards. When the ledger is empty, or its oldest entry is not older
  than the threshold, the safety net changes no table and issues nothing.
\<close>

theorem safety_net:
  "(\<forall>i t. (i, t) \<in> set (tables w (app_name @ ''_searches'')) \<and>
       (\<forall>r \<in> set (tables w (app_name @ ''_searches'')). t \<le> snd r) \<and>
       MAX_CYCLE_DAYS cfg * 86400000000 < clock out (tick w) - t \<and>
       \<bar>MAX_CYCLE_DAYS cfg\<bar> \<le> 999999999 \<and>
       \<not> db_fails out (tick w) \<and> \<not> db_fails out (Suc (tick w)) \<longrightarrow>
       tables (check_safety_net out cfg (app_name @ ''_searches'') w) (app_name @ ''_searches'') = [] \<and>
       trace (check_safety_net out cfg (app_name @ ''_searches'') w) =
         trace w @ [Wiped (app_name @ ''_searches'')] \<and>
       tables (snd (fetched out cfg app_name w)) (app_name @ ''_searches'') = [] \<and>
       (enabled cfg app_name \<longrightarrow>
          (\<exists>evs. trace (run_cycle out cfg app_name w) =
             trace w @ Wiped (app_name @ ''_searches'') # evs))) \<and>
   (enabled cfg app_name \<longrightarrow>
      run_cycle out cfg app_name w =
        fetch_filter_dispatch out cfg app_name
          (check_safety_net out cfg (app_name @ ''_searches'') w)) \<and>
   (tables w (app_name @ ''_searches'') = [] \<or>
    (\<exists>i t. (i, t) \<in> set (tables w (app_name @ ''_searches'')) \<and>
       (\<forall>r \<in> set (tables w (app_name @ ''_searches'')). t \<le> snd r) \<and>
       clock out (tick w) - t \<le> MAX_CYCLE_DAYS cfg * 86400000000) \<longrightarrow>
      tables (check_safety_net out cfg (app_name @ ''_searches'') w) = tables w \<and>
      trace (check_safety_net out cfg (app_name @ ''_searches'') w) = trace w)"
proof (intro conjI allI impI)
  fix i t
  let ?tbl = "app_name @ ''_searches''"
  assume h: "(i, t) \<in> set (tables w ?tbl) \<and> (\<forall>r \<in> set (tables w ?tbl). t \<le> snd r) \<and>
      MAX_CYCLE_DAYS cfg * 86400000000 < clock out (tick w) - t \<and>
      \<bar>MAX_CYCLE_DAYS cfg\<bar> \<le> 999999999 \<and>
      \<not> db_fails out (tick w) \<and> \<not> db_fails out (Suc (tick w))"
  then have "(i, t) \<in> set (tables w ?tbl)" and "\<forall>r \<in> set (tables w ?tbl). t \<le> snd r"
    by blast+
  then have oldest: "oldest_timestamp (tables w ?tbl) = Some t"
    by (rule oldest_timestamp_eq)
  from h have days: "timedelta_days (MAX_CYCLE_DAYS cfg) = Some (MAX_CYCLE_DAYS cfg * 86400000000)"
    by (simp add: timedelta_days_def)
  from h have run: "check_safety_net out cfg ?tbl w = wipe_table out ?tbl (advance w)"
    by (simp add: check_safety_net_def oldest days)
  from h have ok: "\<not> db_fails out (tick (advance w))" by simp
  from wipe_table_ok [OF ok, of ?tbl]
  show wiped: "tables (check_safety_net out cfg ?tbl w) ?tbl = []"
    and first: "trace (check_safety_net out cfg ?tbl w) = trace w @ [Wiped ?tbl]"
    and "tables (snd (fetched out cfg app_name w)) ?tbl = []"
    by (simp_all add: run fetched_tables)
  {
    assume "enabled cfg app_name"
    then have "run_cycle out cfg app_name w =
        fetch_filter_dispatch out cfg app_name (check_safety_net out cfg ?tbl w)"
      by (rule run_cycle_enabled)
    moreover from fetch_filter_dispatch_extends [of out cfg app_name "check_safety_net out cfg ?tbl w"]
    obtain evs where
      "trace (fetch_filter_dispatch out cfg app_name (check_safety_net out cfg ?tbl w)) =
         trace (check_safety_net out cfg ?tbl w) @ evs"
      by blast
    ultimately have "trace (run_cycle out cfg app_name w) = trace w @ Wiped ?tbl # evs"
      by (simp add: first)
    then show "\<exists>evs. trace (run_cycle out cfg app_name w) = trace w @ Wiped ?tbl # evs"
      by blast
  }
next
  assume "enabled cfg app_name"
  then show "run_cycle out cfg app_name w =
      fetch_filter_dispatch out cfg app_name (check_safety_net out cfg (app_name @ ''_searches'') w)"
    by (rule run_cycle_enabled)
next
  let ?tbl = "app_name @ ''_searches''"
  assume h: "tables w ?tbl = [] \<or>
    (\<exists>i t. (i, t) \<in> set (tables w ?tbl) \<and> (\<forall>r \<in> set (tables w ?tbl). t \<le> snd r) \<and>
       clock out (tick w) - t \<le> MAX_CYCLE_DAYS cfg * 86400000000)"
  have "check_safety_net out cfg ?tbl w = advance w"
  proof (cases "tables w ?tbl = []")
    case True
    then show ?thesis
      by (simp add: check_safety_net_def oldest_timestamp_def)
  next
    case False
    with h obtain i t where t: "(i, t) \<in> set (tables w ?tbl)"
      "\<forall>r \<in> set (tables w ?tbl). t \<le> snd r"
      "clock out (tick w) - t \<le> MAX_CYCLE_DAYS cfg * 86400000000"
      by blast
    from t(1,2) have "oldest_timestamp (tables w ?tbl) = Some t"
      by (rule oldest_timestamp_eq)
    with t(3) show ?thesis
      by (simp add: check_safety_net_def timedelta_days_def)
  qed
  then show "tables (check_safety_net out cfg ?tbl w) = tables w"
    and "trace (check_safety_net out cfg ?tbl w) = trace w"
    by simp_all
qed

theorem safety_net_witness:
  "tables (check_safety_net (reading 2764800000000) settings ''sonarr_searches''
      (fresh [(5, 2160000000000), (9, 86400000000)])) ''sonarr_searches'' = [] \<and>
   (\<exists>evs. trace (run_cycle (reading 2764800000000) settings ''sonarr''
      (fresh [(5, 2160000000000), (9, 86400000000)])) = Wiped ''sonarr_searches'' # evs) \<and>
   tables (check_safety_net (reading 3024000000000) settings ''sonarr_searches''
      (fresh [(5, 2160000000000), (9, 864000000000)])) ''sonarr_searches'' =
     [(5, 2160000000000), (9, 864000000000)]"
proof -
  let ?old = "fresh [(5, 2160000000000), (9, 86400000000)]"
  let ?young = "fresh [(5, 2160000000000), (9, 864000000000)]"
  let ?tbl = "''sonarr'' @ ''_searches''"
  have e: "enabled settings ''sonarr''"
    by (simp add: enabled_def settings_def)
  have old: "(9, 86400000000) \<in> set (tables ?old ?tbl) \<and>
      (\<forall>r \<in> set (tables ?old ?tbl). 86400000000 \<le> snd r) \<and>
      MAX_CYCLE_DAYS settings * 86400000000 <
        clock (reading 2764800000000) (tick ?old) - 86400000000 \<and>
      \<bar>MAX_CYCLE_DAYS settings\<bar> \<le> 999999999 \<and>
      \<not> db_fails (reading 2764800000000) (tick ?old) \<and>
      \<not> db_fails (reading 2764800000000) (Suc (tick ?old))"
    by (simp add: fresh_def reading_def serving_def settings_def)
  have young: "\<exists>i t. (i, t) \<in> set (tables ?young ?tbl) \<and>
      (\<forall>r \<in> set (tables ?young ?tbl). t \<le> snd r) \<and>
      clock (reading 3024000000000) (tick ?young) - t \<le> MAX_CYCLE_DAYS settings * 86400000000"
    by (rule exI [of _ 9], rule exI [of _ 864000000000])
      (simp add: fresh_def reading_def serving_def settings_def)
  note net = safety_net [of ?old "''sonarr''" settings "reading 2764800000000"]
  from net old e
  have a: "tables (check_safety_net (reading 2764800000000) settings ?tbl ?old) ?tbl = [] \<and>
      (\<exists>evs. trace (run_cycle (reading 2764800000000) settings ''sonarr'' ?old) =
         trace ?old @ Wiped ?tbl # evs)"
    by blast
  from safety_net [of ?young "''sonarr''" settings "reading 3024000000000"] young
  have b: "tables (check_safety_net (reading 3024000000000) settings ?tbl ?young) = tables ?young"
    by blast
  from a b show ?thesis by (simp add: fresh_def)
qed

subsection \<open>C7: no search of an ID already in the ledger\<close>

text \<open>
  C7: in a cycle whose ledger read succeeds, no ID dispatched to the search trigger is
  in the ledger as it stands when the filter step reads it.
\<close>

theorem no_duplicate_search:
  assumes "\<not> db_fails out (tick (snd (fetched out cfg app_name w)))"
  shows "set (dispatched (issued w (run_cycle out cfg app_name w))) \<inter>
           fst ` set (tables (snd (fetched out cfg app_name w)) (app_name @ ''_searches'')) = {}"
proof -
  from assms have S: "fst (loaded out cfg app_name w) =
      fst ` set (tables (snd (fetched out cfg app_name w)) (app_name @ ''_searches''))"
    by (simp add: loaded_def get_searched_ids_fst)
  from cycle_trace [of out cfg app_name w] obtain evs where
    evs: "trace (run_cycle out cfg app_name w) = trace w @ evs"
      "set (dispatched evs) \<subseteq>
         set (filter_step (fst (fetched out cfg app_name w)) (fst (loaded out cfg app_name w)))"
    by blast
  from evs(2) have "set (dispatched evs) \<inter> fst (loaded out cfg app_name w) = {}"
    by (auto simp: filter_step_def)
  then show ?thesis
    by (simp add: issued_append [OF evs(1)] S)
qed

theorem no_duplicate_search_witness:
  "dispatched (issued (fresh [(5, 0)])
      (run_cycle (serving [9, 5, 7] Failed) settings ''sonarr'' (fresh [(5, 0)]))) = [9, 7] \<and>
   set (dispatched (issued (fresh [(5, 0)])
      (run_cycle (serving [9, 5, 7] Failed) settings ''sonarr'' (fresh [(5, 0)])))) \<inter> {5} = {}"
proof -
  have ok: "\<not> db_fails (serving [9, 5, 7] Failed)
      (tick (snd (fetched (serving [9, 5, 7] Failed) settings ''sonarr'' (fresh [(5, 0)]))))"
    by (simp add: serving_def)
  have led: "fst ` set (tables (snd (fetched (serving [9, 5, 7] Failed) settings ''sonarr''
      (fresh [(5, 0)]))) (''sonarr'' @ ''_searches'')) = {5}"
    by (simp add: fetched_tables) (simp add: cycle_defs fixture_defs)
  have run: "dispatched (issued (fresh [(5, 0)])
      (run_cycle (serving [9, 5, 7] Failed) settings ''sonarr'' (fresh [(5, 0)]))) = [9, 7]"
    by (simp add: cycle_defs fixture_defs)
  from no_duplicate_search [OF ok] led run show ?thesis by simp
qed

subsection \<open>C8: inserting into the ledger twice\<close>

text \<open>
  C8: \<open>recordSearched\<close> (\<^verbatim>\<open>add_searched_id\<close>) is idempotent. After an insert that
  the database accepted, inserting the same ID again leaves every table as it is; an
  insert of an ID already present is a no-op; and when the ID was absent, after the two
  inserts the table holds exactly one entry for it, with the timestamp of the first
  insert. On a table whose IDs are unique (the primary key) the ID has exactly one entry
  afterwards.
\<close>

theorem record_searched_idempotent:
  assumes "\<not> db_fails out (tick w)"
  shows "tables (add_searched_id out t x (add_searched_id out t x w)) =
           tables (add_searched_id out t x w) \<and>
         (x \<in> fst ` set (tables w t) \<longrightarrow> tables (add_searched_id out t x w) = tables w) \<and>
         (x \<notin> fst ` set (tables w t) \<longrightarrow>
            [r \<leftarrow> tables (add_searched_id out t x (add_searched_id out t x w)) t. fst r = x] =
              [(x, clock out (tick w))]) \<and>
         (distinct (map fst (tables w t)) \<longrightarrow>
            distinct (map fst (tables (add_searched_id out t x (add_searched_id out t x w)) t)) \<and>
            length [r \<leftarrow> tables (add_searched_id out t x (add_searched_id out t x w)) t.
                      fst r = x] = 1)"
proof -
  let ?w1 = "add_searched_id out t x w"
  let ?w2 = "add_searched_id out t x ?w1"
  have t1: "tables ?w1 = (tables w)(t := insert_or_ignore x (clock out (tick w)) (tables w t))"
    using assms by (simp add: add_searched_id_tables)
  have present: "x \<in> fst ` set (tables ?w1 t)"
    by (simp add: t1)
  have twice: "tables ?w2 = tables ?w1"
    using present by (simp add: add_searched_id_tables [of out t x ?w1] fun_upd_idem)
  have noop: "x \<in> fst ` set (tables w t) \<longrightarrow> tables ?w1 = tables w"
    by (simp add: t1 fun_upd_idem)
  have entry: "x \<notin> fst ` set (tables w t) \<longrightarrow>
      [r \<leftarrow> tables ?w2 t. fst r = x] = [(x, clock out (tick w))]"
    by (simp add: twice t1 insert_or_ignore_entry)
  have once: "distinct (map fst (tables w t)) \<longrightarrow>
      distinct (map fst (tables ?w2 t)) \<and> length [r \<leftarrow> tables ?w2 t. fst r = x] = 1"
  proof
    assume "distinct (map fst (tables w t))"
    then have d: "distinct (map fst (tables ?w1 t))"
      by (simp add: t1 insert_or_ignore_distinct)
    from distinct_key_once [OF d present] d show
      "distinct (map fst (tables ?w2 t)) \<and> length [r \<leftarrow> tables ?w2 t. fst r = x] = 1"
      by (simp add: twice)
  qed
  from twice noop entry once show ?thesis by blast
qed

theorem record_searched_idempotent_witness:
  "tables (add_searched_id ticking ''sonarr_searches'' 7
       (add_searched_id ticking ''sonarr_searches'' 7 (fresh [(5, 0)]))) ''sonarr_searches'' =
     [(5, 0), (7, 100)]"
proof -
  have ok: "\<not> db_fails ticking (tick (fresh [(5, 0)]))"
    by (simp add: ticking_def serving_def)
  have one: "tables (add_searched_id ticking ''sonarr_searches'' 7 (fresh [(5, 0)])) ''sonarr_searches''
      = [(5, 0), (7, 100)]"
    by (simp add: add_searched_id_tables ticking_def serving_def fresh_def insert_or_ignore_def)
  from record_searched_idempotent [OF ok, of "''sonarr_searches''" 7] one show ?thesis
    by simp
qed

subsection \<open>C9: the batch bound\<close>

text \<open>
  C9 says that the number of search triggers of a cycle never exceeds the configured
  limit. The limit is any integer that \<^verbatim>\<open>int\<close> reads, and line 256 slices with it:
  a limit of \<open>-1\<close> drops the last target only. With three targets two searches are
  triggered, more than \<open>-1\<close>.
\<close>

theorem batch_bound_fails_negative_limit:
  "limit_of (settings\<lparr>SONARR_LIMIT := - 1\<rparr>) ''sonarr'' = - 1 \<and>
   triggers (issued (fresh [])
     (run_cycle (serving [3, 1, 2] Failed) (settings\<lparr>SONARR_LIMIT := - 1\<rparr>) ''sonarr'' (fresh [])))
     = 2"
  by (simp add: cycle_defs fixture_defs)

text \<open>
  C9, amended: for every cycle and every category whose configured limit is not
  negative, the number of search triggers issued in the cycle does not exceed the limit.
\<close>

theorem batch_bound:
  assumes "0 \<le> limit_of cfg app_name"
  shows "int (triggers (issued w (run_cycle out cfg app_name w))) \<le> limit_of cfg app_name"
proof -
  from cycle_trace [of out cfg app_name w] obtain evs where
    evs: "trace (run_cycle out cfg app_name w) = trace w @ evs"
      "triggers evs = 0 \<or>
       triggers evs = length (py_slice_to (limit_of cfg app_name)
         (filter_step (fst (fetched out cfg app_name w)) (fst (loaded out cfg app_name w))))"
    by blast
  from evs(2) length_py_slice_to [OF assms] assms
  have "int (triggers evs) \<le> limit_of cfg app_name"
    by auto
  then show ?thesis
    by (simp add: issued_append [OF evs(1)])
qed

theorem batch_bound_witness:
  "triggers (issued (fresh [])
     (run_cycle (serving [3, 1, 2] Failed) settings ''sonarr'' (fresh []))) \<le> 2"
proof -
  have "0 \<le> limit_of settings ''sonarr''"
    by (simp add: limit_of_def settings_def)
  from batch_bound [OF this, of "fresh []" "serving [3, 1, 2] Failed"] show ?thesis
    by (simp add: limit_of_def settings_def)
qed

subsection \<open>C10: the cutoff limit\<close>

text \<open>
  C10 says that the cutoff limit is a zero or nonzero flag: two runs that differ only in
  nonzero values of it behave alike. The test is \<^verbatim>\<open>cutoff_limit > 0\<close> (lines 160
  and 177): the values \<open>-1\<close> and \<open>1\<close> are both nonzero, and the cutoff listing is
  fetched and its ID 4 dispatched only under \<open>1\<close>.
\<close>

theorem cutoff_limit_sign_matters:
  "(- 1 :: int) \<noteq> 0 \<and> (1 :: int) \<noteq> 0 \<and>
   dispatched (issued (fresh [])
     (run_cycle (serving [3] (Json (wanted [4]))) (settings\<lparr>SONARR_CUTOFF_LIMIT := - 1\<rparr>)
        ''sonarr'' (fresh []))) = [3] \<and>
   dispatched (issued (fresh [])
     (run_cycle (serving [3] (Json (wanted [4]))) (settings\<lparr>SONARR_CUTOFF_LIMIT := 1\<rparr>)
        ''sonarr'' (fresh []))) = [3, 4]"
  by (simp add: cycle_defs fixture_defs)

text \<open>
  C10, amended: the cutoff limit acts only as a flag that is on when the value is
  positive. Two runs that are identical but for the cutoff limit of a category, with
  both values positive or both not positive, end in the same world: the same tables, the
  same requests, pauses and wipes in the same order. The magnitude of a positive value
  bounds nothing.
\<close>

theorem cutoff_limit_is_a_flag:
  assumes "(0 < c) = (0 < c')"
  shows "run_cycle out (cfg\<lparr>SONARR_CUTOFF_LIMIT := c\<rparr>) app_name w =
           run_cycle out (cfg\<lparr>SONARR_CUTOFF_LIMIT := c'\<rparr>) app_name w \<and>
         run_cycle out (cfg\<lparr>RADARR_CUTOFF_LIMIT := c\<rparr>) app_name w =
           run_cycle out (cfg\<lparr>RADARR_CUTOFF_LIMIT := c'\<rparr>) app_name w"
  using assms by (auto intro!: run_cycle_cutoff_flag)

theorem cutoff_limit_is_a_flag_witness:
  "run_cycle (serving [3] (Json (wanted [4]))) (settings\<lparr>SONARR_CUTOFF_LIMIT := 1\<rparr>) ''sonarr'' (fresh []) =
   run_cycle (serving [3] (Json (wanted [4]))) (settings\<lparr>SONARR_CUTOFF_LIMIT := 1000\<rparr>) ''sonarr'' (fresh [])"
proof -
  have "(0 < (1::int)) = (0 < (1000::int))" by simp
  from cutoff_limit_is_a_flag [OF this] show ?thesis by blast
qed

end
